theory Spec2Isabelle
  imports Main "HOL-Library.Sublist"
begin

section \<open>Python strings\<close>

text \<open>
  The scripts work on Python \<open>str\<close> values read from C\# test files. A text is modelled
  as a \<open>string\<close> (a list of 8-bit characters); the character classes below are the ones
  Python's \<open>str.isspace\<close>, \<open>str.strip\<close> and the \<open>re\<close> module use on code points
  below 256.
\<close>

definition is_space :: "char \<Rightarrow> bool" where
  "is_space c = (of_char c \<in> set [9, 10, 11, 12, 13, 28, 29, 30, 31, 32, 133, 160 :: nat])"

definition is_word :: "char \<Rightarrow> bool" where
  "is_word c = (let n = (of_char c :: nat) in
     (48 \<le> n \<and> n \<le> 57) \<or> (65 \<le> n \<and> n \<le> 90) \<or> n = 95 \<or> (97 \<le> n \<and> n \<le> 122)
     \<or> n \<in> set [170, 178, 179, 181, 185, 186, 188, 189, 190]
     \<or> (192 \<le> n \<and> n \<le> 214) \<or> (216 \<le> n \<and> n \<le> 246) \<or> 248 \<le> n)"

text \<open>The exceptions that the scripts can meet, as values.\<close>

datatype py_error = FileNotFoundError | PermissionError | ValueError

definition nl :: string where
  "nl = [CHR 0x0A]"

definition cr :: string where
  "cr = [CHR 0x0D]"

text \<open>\<open>sub in s\<close>: the substring test.\<close>

fun py_in :: "string \<Rightarrow> string \<Rightarrow> bool" where
  "py_in sub [] = (sub = [])"
| "py_in sub (c # s) = (prefix sub (c # s) \<or> py_in sub s)"

text \<open>\<open>s.lstrip()\<close>, \<open>s.rstrip()\<close> and \<open>s.strip()\<close> without argument.\<close>

definition lstrip :: "string \<Rightarrow> string" where
  "lstrip s = dropWhile is_space s"

definition rstrip :: "string \<Rightarrow> string" where
  "rstrip s = rev (dropWhile is_space (rev s))"

definition strip :: "string \<Rightarrow> string" where
  "strip s = rstrip (lstrip s)"

text \<open>\<open>s.rstrip(chars)\<close> and \<open>s.endswith(suffix)\<close>.\<close>

definition rstrip_chars :: "string \<Rightarrow> string \<Rightarrow> string" where
  "rstrip_chars s chars = rev (dropWhile (\<lambda>c. c \<in> set chars) (rev s))"

definition endswith :: "string \<Rightarrow> string \<Rightarrow> bool" where
  "endswith s ending = prefix (rev ending) (rev s)"

text \<open>\<open>s.split(sep)\<close> for a one-character separator: the result is never empty.\<close>

fun split_on :: "char \<Rightarrow> string \<Rightarrow> string list" where
  "split_on sep [] = [[]]"
| "split_on sep (c # s) =
     (if c = sep then [] # split_on sep s
      else (case split_on sep s of
              [] \<Rightarrow> [[c]]
            | w # ws \<Rightarrow> (c # w) # ws))"

text \<open>\<open>sep.join(xs)\<close>.\<close>

fun join :: "string \<Rightarrow> string list \<Rightarrow> string" where
  "join sep [] = []"
| "join sep [x] = x"
| "join sep (x # y # ys) = x @ sep @ join sep (y # ys)"

text \<open>
  \<open>s.replace(old, new)\<close>: every non-overlapping occurrence of \<open>old\<close>, found from the
  left, is replaced. For an empty \<open>old\<close> Python puts \<open>new\<close> before every character
  and at the end.
\<close>

fun replace_nonempty :: "string \<Rightarrow> string \<Rightarrow> nat \<Rightarrow> string \<Rightarrow> string" where
  "replace_nonempty old new skip [] = []"
| "replace_nonempty old new (Suc n) (c # s) = replace_nonempty old new n s"
| "replace_nonempty old new 0 (c # s) =
     (if prefix old (c # s) then new @ replace_nonempty old new (length old - 1) s
      else c # replace_nonempty old new 0 s)"

definition py_replace :: "string \<Rightarrow> string \<Rightarrow> string \<Rightarrow> string" where
  "py_replace s old new =
     (if old = [] then new @ concat (map (\<lambda>c. c # new) s)
      else replace_nonempty old new 0 s)"

section \<open>Regular expressions\<close>

text \<open>
  The fragment of Python's \<open>re\<close> syntax that the scripts use: literals, the classes
  \<open>\w\<close>, \<open>\s\<close>, \<open>.\<close> under \<open>re.DOTALL\<close> and \<open>[^...]\<close>, greedy and lazy
  iteration of a class, sequence, alternation, numbered groups and \<open>\Z\<close>. Every
  iteration in the scripts' patterns is over a single character class, and no pattern uses
  \<open>^\<close>, \<open>$\<close> or a dot without \<open>re.DOTALL\<close>, so \<open>re.MULTILINE\<close> changes nothing.
\<close>

datatype cls = Wd | Sp | Any | NotIn string

fun in_cls :: "cls \<Rightarrow> char \<Rightarrow> bool" where
  "in_cls Wd c = is_word c"
| "in_cls Sp c = is_space c"
| "in_cls Any c = True"
| "in_cls (NotIn cs) c = (c \<notin> set cs)"

datatype rx =
    Eps
  | Lit string
  | Cls cls
  | Star cls
  | StarLazy cls
  | Seq rx rx
  | Alt rx rx
  | Grp nat rx
  | EndZ

text \<open>\<open>c+\<close>, \<open>r?\<close> and a sequence of several parts.\<close>

definition Plus :: "cls \<Rightarrow> rx" where
  "Plus c = Seq (Cls c) (Star c)"

definition Opt :: "rx \<Rightarrow> rx" where
  "Opt a = Alt a Eps"

definition seqs :: "rx list \<Rightarrow> rx" where
  "seqs rs = foldr Seq rs Eps"

type_synonym caps = "(nat \<times> string) list"

text \<open>
  A backtracking matcher with the priorities of Python's engine: the left alternative
  first, a greedy iteration takes one more character before it tries to stop, a lazy one
  tries to stop before it takes one more character. The work still to do is a stack:
  a pattern to match, or the end of a group, which records the text matched since the
  group was entered (\<open>Close n s\<close>: group \<open>n\<close> was entered when the input was \<open>s\<close>).
  The first way through the whole stack wins; the result is the rest of the input and
  the groups.
\<close>

datatype item = R rx | Close nat string

fun item_size :: "item \<Rightarrow> nat" where
  "item_size (R r) = size r"
| "item_size (Close n s) = 0"

function run :: "item list \<Rightarrow> string \<Rightarrow> caps \<Rightarrow> (string \<times> caps) option" where
  "run [] s g = Some (s, g)"
| "run (Close n st # k) s g = run k s ((n, take (length st - length s) st) # g)"
| "run (R Eps # k) s g = run k s g"
| "run (R (Lit l) # k) s g = (if prefix l s then run k (drop (length l) s) g else None)"
| "run (R (Cls c) # k) [] g = None"
| "run (R (Cls c) # k) (x # t) g = (if in_cls c x then run k t g else None)"
| "run (R (Star c) # k) [] g = run k [] g"
| "run (R (Star c) # k) (x # t) g =
     (if in_cls c x then
        (case run (R (Star c) # k) t g of
           Some res \<Rightarrow> Some res
         | None \<Rightarrow> run k (x # t) g)
      else run k (x # t) g)"
| "run (R (StarLazy c) # k) [] g = run k [] g"
| "run (R (StarLazy c) # k) (x # t) g =
     (case run k (x # t) g of
        Some res \<Rightarrow> Some res
      | None \<Rightarrow> if in_cls c x then run (R (StarLazy c) # k) t g else None)"
| "run (R (Seq a b) # k) s g = run (R a # R b # k) s g"
| "run (R (Alt a b) # k) s g =
     (case run (R a # k) s g of
        Some res \<Rightarrow> Some res
      | None \<Rightarrow> run (R b # k) s g)"
| "run (R (Grp n a) # k) s g = run (R a # Close n s # k) s g"
| "run (R EndZ # k) s g = (if s = [] then run k s g else None)"
  by pat_completeness auto
termination
  by (relation "inv_image (measure (\<lambda>k. 2 * sum_list (map item_size k) + length k)
                             <*lex*> measure length) (\<lambda>(k, s, g). (k, s))") auto

text \<open>A match object: its span in the searched text and its groups (group 0 is the match).\<close>

record match_obj =
  m_start :: nat
  m_end :: nat
  m_groups :: caps

definition group :: "match_obj \<Rightarrow> nat \<Rightarrow> string" where
  "group m n = (case map_of (m_groups m) n of Some t \<Rightarrow> t | None \<Rightarrow> [])"

definition match_here :: "rx \<Rightarrow> string \<Rightarrow> nat \<Rightarrow> match_obj option" where
  "match_here r s pos =
     (case run [R r] s [] of
        None \<Rightarrow> None
      | Some (rest, g) \<Rightarrow>
          Some \<lparr>m_start = pos, m_end = pos + (length s - length rest),
                m_groups = (0, take (length s - length rest) s) # g\<rparr>)"

text \<open>\<open>re.search\<close>: the leftmost position where the pattern matches.\<close>

fun search_from :: "rx \<Rightarrow> string \<Rightarrow> nat \<Rightarrow> match_obj option" where
  "search_from r [] pos = match_here r [] pos"
| "search_from r (c # t) pos =
     (case match_here r (c # t) pos of
        Some m \<Rightarrow> Some m
      | None \<Rightarrow> search_from r t (Suc pos))"

definition re_search :: "rx \<Rightarrow> string \<Rightarrow> match_obj option" where
  "re_search r s = search_from r s 0"

text \<open>
  \<open>re.sub\<close> with a function as replacement: the text is scanned from the left, every
  match is replaced by what the function returns for it, and the scan goes on behind the
  match. \<open>skip\<close> counts the characters of the current match that are still to be passed
  over. No pattern of the scripts matches the empty string; for a pattern that does, the
  replacement is emitted and the scan moves on by one character.
\<close>

fun re_sub_from :: "rx \<Rightarrow> (match_obj \<Rightarrow> string) \<Rightarrow> nat \<Rightarrow> string \<Rightarrow> nat \<Rightarrow> string" where
  "re_sub_from r repl (Suc n) [] pos = []"
| "re_sub_from r repl 0 [] pos =
     (case match_here r [] pos of None \<Rightarrow> [] | Some m \<Rightarrow> repl m)"
| "re_sub_from r repl (Suc n) (c # t) pos = re_sub_from r repl n t (Suc pos)"
| "re_sub_from r repl 0 (c # t) pos =
     (case match_here r (c # t) pos of
        None \<Rightarrow> c # re_sub_from r repl 0 t (Suc pos)
      | Some m \<Rightarrow>
          (if m_end m = pos then repl m @ c # re_sub_from r repl 0 t (Suc pos)
           else repl m @ re_sub_from r repl (m_end m - pos - 1) t (Suc pos)))"

definition re_sub :: "rx \<Rightarrow> (match_obj \<Rightarrow> string) \<Rightarrow> string \<Rightarrow> string" where
  "re_sub r repl s = re_sub_from r repl 0 s 0"

text \<open>
  \<open>match.groups()\<close>: the texts of all groups of the pattern, from group 1 on; their
  number is the number of groups of the pattern.
\<close>

fun num_groups :: "rx \<Rightarrow> nat" where
  "num_groups (Grp n a) = max n (num_groups a)"
| "num_groups (Seq a b) = max (num_groups a) (num_groups b)"
| "num_groups (Alt a b) = max (num_groups a) (num_groups b)"
| "num_groups r = 0"

definition match_groups :: "rx \<Rightarrow> match_obj \<Rightarrow> string list" where
  "match_groups r m = map (group m) [1..<Suc (num_groups r)]"

text \<open>
  \<open>re.sub\<close> with a replacement function that may raise: the scan is the one of
  \<open>re_sub_from\<close>, and the first error of the function ends it.
\<close>

fun re_sub_from_raising ::
  "rx \<Rightarrow> (match_obj \<Rightarrow> py_error + string) \<Rightarrow> nat \<Rightarrow> string \<Rightarrow> nat \<Rightarrow> py_error + string" where
  "re_sub_from_raising r repl (Suc n) [] pos = Inr []"
| "re_sub_from_raising r repl 0 [] pos =
     (case match_here r [] pos of None \<Rightarrow> Inr [] | Some m \<Rightarrow> repl m)"
| "re_sub_from_raising r repl (Suc n) (c # t) pos = re_sub_from_raising r repl n t (Suc pos)"
| "re_sub_from_raising r repl 0 (c # t) pos =
     (case match_here r (c # t) pos of
        None \<Rightarrow>
          (case re_sub_from_raising r repl 0 t (Suc pos) of
             Inl e \<Rightarrow> Inl e
           | Inr rest \<Rightarrow> Inr (c # rest))
      | Some m \<Rightarrow>
          (case repl m of
             Inl e \<Rightarrow> Inl e
           | Inr new \<Rightarrow>
               (if m_end m = pos then
                  (case re_sub_from_raising r repl 0 t (Suc pos) of
                     Inl e \<Rightarrow> Inl e
                   | Inr rest \<Rightarrow> Inr (new @ c # rest))
                else
                  (case re_sub_from_raising r repl (m_end m - pos - 1) t (Suc pos) of
                     Inl e \<Rightarrow> Inl e
                   | Inr rest \<Rightarrow> Inr (new @ rest)))))"

definition re_sub_raising ::
  "rx \<Rightarrow> (match_obj \<Rightarrow> py_error + string) \<Rightarrow> string \<Rightarrow> py_error + string" where
  "re_sub_raising r repl s = re_sub_from_raising r repl 0 s 0"

text \<open>\<open>re.finditer\<close>: the matches that \<open>re.sub\<close> would replace, from left to right.\<close>

fun finditer_from :: "rx \<Rightarrow> nat \<Rightarrow> string \<Rightarrow> nat \<Rightarrow> match_obj list" where
  "finditer_from r (Suc n) [] pos = []"
| "finditer_from r 0 [] pos =
     (case match_here r [] pos of None \<Rightarrow> [] | Some m \<Rightarrow> [m])"
| "finditer_from r (Suc n) (c # t) pos = finditer_from r n t (Suc pos)"
| "finditer_from r 0 (c # t) pos =
     (case match_here r (c # t) pos of
        None \<Rightarrow> finditer_from r 0 t (Suc pos)
      | Some m \<Rightarrow>
          (if m_end m = pos then m # finditer_from r 0 t (Suc pos)
           else m # finditer_from r (m_end m - pos - 1) t (Suc pos)))"

definition re_finditer :: "rx \<Rightarrow> string \<Rightarrow> match_obj list" where
  "re_finditer r s = finditer_from r 0 s 0"

section \<open>The line-based wrapper fixer (fix_all_pagedresponse.py)\<close>

text \<open>
  \<open>fix_all_paged_response_tests\<close> splits a file into lines and, for every line that
  holds the serialization call of \<open>expectedResponse\<close>, looks backwards for the declaration
  of \<open>expectedResponse\<close>, derives the wrapper type from it and puts a wrapper line in
  front of the serialization line.
\<close>

definition SERIALIZE_CALL :: string where
  "SERIALIZE_CALL = ''JsonSerializer.Serialize(expectedResponse, _jsonOptions)''"

definition DECL_MARK :: string where
  "DECL_MARK = ''var expectedResponse = new ''"

text \<open>The pattern \<^verbatim>\<open>new\s+(\w+(?:<[^>]+>)?)\s*{\<close>.\<close>

definition decl_type_rx :: rx where
  "decl_type_rx =
     seqs [Lit ''new'', Plus Sp,
           Grp 1 (Seq (Plus Wd)
                      (Opt (seqs [Lit ''<'', Plus (NotIn ''>''), Lit ''>'']))),
           Star Sp, Lit ''{'']"

text \<open>The pattern \<^verbatim>\<open>PagedResponse<([^>]+)>\<close>.\<close>

definition paged_inner_rx :: rx where
  "paged_inner_rx = seqs [Lit ''PagedResponse<'', Grp 1 (Plus (NotIn ''>'')), Lit ''>'']"

text \<open>
  The inner \<open>while j >= 0\<close> loop, started at \<open>j = i - 1\<close>: \<open>scan_back lines (Suc j)\<close>
  looks at line \<open>j\<close> and then at the lines above it. It stops at the first line that holds
  the declaration mark, whether or not the type pattern matches there.
\<close>

fun scan_back :: "string list \<Rightarrow> nat \<Rightarrow> string option" where
  "scan_back lines 0 = None"
| "scan_back lines (Suc j) =
     (let prev_line = strip (lines ! j) in
      if py_in DECL_MARK prev_line then
        (case re_search decl_type_rx prev_line of
           Some m \<Rightarrow> Some (group m 1)
         | None \<Rightarrow> None)
      else scan_back lines j)"

text \<open>Lines 63 to 73: the wrapper type for a resolved type name.\<close>

definition wrapper_type_of :: "string \<Rightarrow> string" where
  "wrapper_type_of expected_response_type =
     (if py_in ''PagedResponse'' expected_response_type then
        (case re_search paged_inner_rx expected_response_type of
           Some m \<Rightarrow> ''ApiResponse<PagedResponse<'' @ group m 1 @ ''>>''
         | None \<Rightarrow> ''ApiResponse<PagedResponse<>>'')
      else ''ApiResponse<'' @ expected_response_type @ ''>'')"

text \<open>Lines 75 to 77: the wrapper line, indented like the serialization line.\<close>

definition wrapper_line_of :: "string \<Rightarrow> string \<Rightarrow> string" where
  "wrapper_line_of line wrapper_type =
     (let indent = length line - length (lstrip line) in
      replicate indent CHR '' '' @ ''var apiResponse = new '' @ wrapper_type
        @ '' { Data = expectedResponse };'')"

text \<open>
  What the body of the outer loop puts in front of line \<open>i\<close>: the wrapper line, when the
  line holds the serialization call and the type was resolved to a non-empty name
  (\<open>if expected_response_type:\<close> is false for \<open>None\<close> and for the empty string).
\<close>

definition wrapper_at :: "string list \<Rightarrow> nat \<Rightarrow> string option" where
  "wrapper_at lines i =
     (let line = lines ! i in
      if py_in SERIALIZE_CALL line then
        (case scan_back lines i of
           None \<Rightarrow> None
         | Some expected_response_type \<Rightarrow>
             if expected_response_type = [] then None
             else Some (wrapper_line_of line (wrapper_type_of expected_response_type)))
      else None)"

text \<open>The outer \<open>while i < len(lines)\<close> loop with its two accumulators.\<close>

function fix_loop :: "string list \<Rightarrow> nat \<Rightarrow> string list \<Rightarrow> nat \<Rightarrow> string list \<times> nat" where
  "fix_loop lines i modified_lines fixes_in_file =
     (if i < length lines then
        (case wrapper_at lines i of
           Some wrapper_line \<Rightarrow>
             fix_loop lines (Suc i) (modified_lines @ [wrapper_line, lines ! i])
               (Suc fixes_in_file)
         | None \<Rightarrow> fix_loop lines (Suc i) (modified_lines @ [lines ! i]) fixes_in_file)
      else (modified_lines, fixes_in_file))"
  by pat_completeness auto
termination
  by (relation "measure (\<lambda>(lines, i, ml, n). length lines - i)") auto

declare fix_loop.simps [simp del]

text \<open>
  The text transformation in the \<open>try\<close> block (lines 34 to 92), which runs for the files
  that passed the filter of lines 13 to 19: the number of fixes and, when a fix was made
  (\<open>if fixes_in_file > 0\<close>), the text that is written back.
\<close>

definition fix_text :: "string \<Rightarrow> string option \<times> nat" where
  "fix_text content =
     (let lines = split_on CHR 0x0A content;
          (modified_lines, fixes_in_file) = fix_loop lines 0 [] 0
      in (if fixes_in_file > 0 then Some (join nl modified_lines) else None,
          fixes_in_file))"

section \<open>The pattern-based wrapper fixer (fix_pagedresponse_tests.py)\<close>

text \<open>
  The pattern
  \<^verbatim>\<open>(\s+var\s+(\w+)\s*=\s*new\s+PagedResponse<[^>]+>\s*\{[^}]*\}\s*;)\<close>:
  group 1 is the whole declaration, group 2 the variable name.
\<close>

definition paged_response_pattern :: rx where
  "paged_response_pattern =
     Grp 1 (seqs [Plus Sp, Lit ''var'', Plus Sp, Grp 2 (Plus Wd), Star Sp, Lit ''='',
                  Star Sp, Lit ''new'', Plus Sp, Lit ''PagedResponse<'',
                  Plus (NotIn ''>''), Lit ''>'', Star Sp, Lit ''{'', Star (NotIn ''}''),
                  Lit ''}'', Star Sp, Lit '';''])"

text \<open>
  The pattern
  \<^verbatim>\<open>\s+var\s+jsonResponse\s*=\s*JsonSerializer\.Serialize\([^,]+,\s*_jsonOptions\)\s*;\<close>.
\<close>

definition serialization_pattern :: rx where
  "serialization_pattern =
     seqs [Plus Sp, Lit ''var'', Plus Sp, Lit ''jsonResponse'', Star Sp, Lit ''='',
           Star Sp, Lit ''JsonSerializer.Serialize('', Plus (NotIn '',''), Lit '','',
           Star Sp, Lit ''_jsonOptions)'', Star Sp, Lit '';'']"

text \<open>
  The callback \<open>replace_paged_response\<close>; \<open>content\<close> is the text that is being
  substituted, which the callback reads for its look-ahead of 500 characters.
\<close>

definition replace_paged_response :: "string \<Rightarrow> match_obj \<Rightarrow> string" where
  "replace_paged_response content match =
     (let indent = group match 1;
          var_name = group match 2;
          full_declaration = group match 0;
          lines_after_match = take 500 (drop (m_end match) content)
      in if py_in ''ApiResponse<'' lines_after_match \<and> py_in var_name lines_after_match
         then full_declaration
         else indent @ ''var apiResponse = new ApiResponse<PagedResponse<>> { Data = ''
                @ var_name @ '' };'' @ nl
                @ indent @ ''var jsonResponse = JsonSerializer.Serialize(apiResponse, _jsonOptions);'')"

text \<open>
  The text transformation in the \<open>try\<close> block, which runs for the files whose text
  holds \<open>PagedResponse<\<close> (lines 10 to 19): both substitutions, and the text that is
  written back when it differs from the original.
\<close>

definition paged_pipeline :: "string \<Rightarrow> string" where
  "paged_pipeline original_content =
     (let content = re_sub paged_response_pattern (replace_paged_response original_content)
                      original_content
      in re_sub serialization_pattern (\<lambda>m. []) content)"

definition fix_paged_text :: "string \<Rightarrow> string option" where
  "fix_paged_text original_content =
     (let content = paged_pipeline original_content
      in if content \<noteq> original_content then Some content else None)"

section \<open>Files\<close>

text \<open>
  The scripts read and write files by path. A file has a text and may be unreadable or
  unwritable; \<open>open\<close> then raises, which the model returns as a value. Reading in
  Python's text mode turns \<open>\r\n\<close> and \<open>\r\<close> into \<open>\n\<close>.
\<close>

record disk_file =
  f_text :: string
  f_readable :: bool
  f_writable :: bool

type_synonym fs = "string \<rightharpoonup> disk_file"

fun universal_newlines :: "string \<Rightarrow> string" where
  "universal_newlines [] = []"
| "universal_newlines [c] = (if c = CHR 0x0D then [CHR 0x0A] else [c])"
| "universal_newlines (c # d # s) =
     (if c = CHR 0x0D \<and> d = CHR 0x0A then CHR 0x0A # universal_newlines s
      else if c = CHR 0x0D then CHR 0x0A # universal_newlines (d # s)
      else c # universal_newlines (d # s))"

definition path_exists :: "fs \<Rightarrow> string \<Rightarrow> bool" where
  "path_exists files p = (files p \<noteq> None)"

definition read_file :: "fs \<Rightarrow> string \<Rightarrow> py_error + string" where
  "read_file files p =
     (case files p of
        None \<Rightarrow> Inl FileNotFoundError
      | Some f \<Rightarrow> if f_readable f then Inr (universal_newlines (f_text f)) else Inl PermissionError)"

definition write_file :: "fs \<Rightarrow> string \<Rightarrow> string \<Rightarrow> py_error + fs" where
  "write_file files p new_text =
     (case files p of
        None \<Rightarrow> Inr (files(p \<mapsto> \<lparr>f_text = new_text, f_readable = True, f_writable = True\<rparr>))
      | Some f \<Rightarrow> if f_writable f then Inr (files(p \<mapsto> f\<lparr>f_text := new_text\<rparr>)) else Inl PermissionError)"

subsection \<open>fix_all_pagedresponse.py on files\<close>

text \<open>
  The body of the \<open>try\<close> block for one file (lines 30 to 92) and its \<open>except\<close>: an
  error while reading or writing is printed, the file is left as it is and counts no fix.
\<close>

definition fix_all_try :: "fs \<Rightarrow> string \<Rightarrow> py_error + fs \<times> nat" where
  "fix_all_try files file_path =
     (case read_file files file_path of
        Inl e \<Rightarrow> Inl e
      | Inr content \<Rightarrow>
          (case fix_text content of
             (Some new_content, fixes_in_file) \<Rightarrow>
               (case write_file files file_path new_content of
                  Inl e \<Rightarrow> Inl e
                | Inr files' \<Rightarrow> Inr (files', fixes_in_file))
           | (None, fixes_in_file) \<Rightarrow> Inr (files, 0)))"

fun fix_all_files :: "fs \<Rightarrow> string list \<Rightarrow> nat \<Rightarrow> fs \<times> nat" where
  "fix_all_files files [] total_fixes = (files, total_fixes)"
| "fix_all_files files (file_path # rest) total_fixes =
     (case fix_all_try files file_path of
        Inl e \<Rightarrow> fix_all_files files rest total_fixes
      | Inr (files', fixes_in_file) \<Rightarrow> fix_all_files files' rest (total_fixes + fixes_in_file))"

text \<open>
  Lines 9 to 21: of the files that \<open>os.walk\<close> lists (directory and name), those whose
  name ends in \<open>Tests.cs\<close>, is not the skipped one, and whose text holds
  \<open>PagedResponse<\<close>; a file that cannot be read is left out.
\<close>

fun find_test_files :: "fs \<Rightarrow> (string \<times> string) list \<Rightarrow> string list" where
  "find_test_files files [] = []"
| "find_test_files files ((root, name) # rest) =
     (if endswith name ''Tests.cs'' \<and> name \<noteq> ''CustomContactTypesClientTests.cs'' then
        (let file_path = root @ ''/'' @ name in
         case read_file files file_path of
           Inl e \<Rightarrow> find_test_files files rest
         | Inr content \<Rightarrow>
             if py_in ''PagedResponse<'' content then file_path # find_test_files files rest
             else find_test_files files rest)
      else find_test_files files rest)"

definition fix_all_paged_response_tests :: "fs \<Rightarrow> (string \<times> string) list \<Rightarrow> fs \<times> nat" where
  "fix_all_paged_response_tests files walked =
     fix_all_files files (find_test_files files walked) 0"

section \<open>The single-object fixer (fix_single_object_tests.py)\<close>

text \<open>The pattern \<^verbatim>\<open>public async Task (\w+Async_WithValidId_Returns\w+)\(\)\<close>.\<close>

definition test_method_rx :: rx where
  "test_method_rx =
     seqs [Lit ''public async Task '',
           Grp 1 (seqs [Plus Wd, Lit ''Async_WithValidId_Returns'', Plus Wd]), Lit ''()'']"

text \<open>
  The pattern
  \<^verbatim>\<open>(\[Fact\]\s+public async Task NAME\(\)[^{]*?\{)(.*?)(\}\s*\])\<close>
  for a method name, which consists of word characters and so stands for itself.
\<close>

definition method_pattern :: "string \<Rightarrow> rx" where
  "method_pattern method_name =
     seqs [Grp 1 (seqs [Lit ''[Fact]'', Plus Sp, Lit ''public async Task '', Lit method_name,
                        Lit ''()'', StarLazy (NotIn ''{''), Lit ''{'']),
           Grp 2 (StarLazy Any),
           Grp 3 (seqs [Lit ''}'', Star Sp, Lit '']''])]"

text \<open>The pattern \<^verbatim>\<open>var expectedResponse = new (\w+)\<close>.\<close>

definition model_rx :: rx where
  "model_rx = seqs [Lit ''var expectedResponse = new '', Grp 1 (Plus Wd)]"

definition SERIALIZE_STMT :: string where
  "SERIALIZE_STMT = ''var jsonResponse = JsonSerializer.Serialize(expectedResponse, _jsonOptions);''"

text \<open>The two replacements on the text of a test (lines 29 to 36).\<close>

definition wrap_single_object :: "string \<Rightarrow> string \<Rightarrow> string" where
  "wrap_single_object code model_type =
     py_replace
       (py_replace code (''var expectedResponse = new '' @ model_type)
                        (''var expected'' @ model_type @ '' = new '' @ model_type))
       SERIALIZE_STMT
       (''var apiResponse = new ApiResponse<'' @ model_type @ ''> { Data = expected''
          @ model_type @ '' };'' @ nl
          @ ''            var jsonResponse = JsonSerializer.Serialize(apiResponse, _jsonOptions);'')"

text \<open>
  The body of the loop over the method names: the new text of the file when the method
  was rewritten (\<open>modified = True\<close>), \<open>None\<close> when the text stays as it is.
\<close>

definition fix_method :: "string \<Rightarrow> string \<Rightarrow> string option" where
  "fix_method content method_name =
     (case re_search (method_pattern method_name) content of
        None \<Rightarrow> None
      | Some method_match \<Rightarrow>
          (let before = group method_match 1;
               method_body = group method_match 2;
               after = group method_match 3
           in if \<not> py_in ''new ApiResponse<'' method_body \<and> \<not> py_in ''PagedResponse<'' method_body
              then (case re_search model_rx method_body of
                      None \<Rightarrow> None
                    | Some model_match \<Rightarrow>
                        (let model_type = group model_match 1;
                             new_method_body = wrap_single_object method_body model_type;
                             new_method = before @ new_method_body @ after
                         in Some (py_replace content (group method_match 0) new_method)))
              else None))"

fun fix_methods :: "string list \<Rightarrow> string \<Rightarrow> bool \<Rightarrow> string \<times> bool" where
  "fix_methods [] content modified = (content, modified)"
| "fix_methods (method_name # rest) content modified =
     (case fix_method content method_name of
        Some content' \<Rightarrow> fix_methods rest content' True
      | None \<Rightarrow> fix_methods rest content modified)"

definition fix_single_object_text :: "string \<Rightarrow> string \<times> bool" where
  "fix_single_object_text content =
     (let test_methods = map (\<lambda>m. group m 1) (re_finditer test_method_rx content)
      in fix_methods test_methods content False)"

text \<open>\<open>fix_single_object_get_tests(file_path)\<close>: no error is caught here.\<close>

definition fix_single_object_get_tests :: "fs \<Rightarrow> string \<Rightarrow> py_error + fs \<times> bool" where
  "fix_single_object_get_tests files file_path =
     (case read_file files file_path of
        Inl e \<Rightarrow> Inl e
      | Inr content \<Rightarrow>
          (case fix_single_object_text content of
             (content', modified) \<Rightarrow>
               if modified then
                 (case write_file files file_path content' of
                    Inl e \<Rightarrow> Inl e
                  | Inr files' \<Rightarrow> Inr (files', True))
               else Inr (files, False)))"

text \<open>
  The loop at the end of the script (lines 64 to 71): an error raised for one file ends
  the script, since nothing catches it. The result is the files and the count that is
  printed as \<open>Total files fixed\<close>.
\<close>

fun single_object_main :: "fs \<Rightarrow> string list \<Rightarrow> nat \<Rightarrow> py_error + fs \<times> nat" where
  "single_object_main files [] total_fixes = Inr (files, total_fixes)"
| "single_object_main files (test_file # rest) total_fixes =
     (if path_exists files test_file then
        (case fix_single_object_get_tests files test_file of
           Inl e \<Rightarrow> Inl e
         | Inr (files', modified) \<Rightarrow>
             single_object_main files' rest (if modified then total_fixes + 1 else total_fixes))
      else single_object_main files rest total_fixes)"

section \<open>The method fixer (final_fix_script.py)\<close>

text \<open>
  The pattern
  \<^verbatim>\<open>(\[Fact\]\s+public async Task (\w+Async_WithValidId_Returns\w+)\(\)\s*\{)(.*?)(\})\s*(\[Fact\]|public class|\Z)\<close>.
\<close>

definition test_pattern :: rx where
  "test_pattern =
     seqs [Grp 1 (seqs [Lit ''[Fact]'', Plus Sp, Lit ''public async Task '',
                        Grp 2 (seqs [Plus Wd, Lit ''Async_WithValidId_Returns'', Plus Wd]),
                        Lit ''()'', Star Sp, Lit ''{'']),
           Grp 3 (StarLazy Any),
           Grp 4 (Lit ''}''),
           Star Sp,
           Grp 5 (Alt (Lit ''[Fact]'') (Alt (Lit ''public class'') EndZ))]"

text \<open>The pattern \<^verbatim>\<open>var expected(\w*) = new (\w+)\<close>.\<close>

definition expected_decl_rx :: rx where
  "expected_decl_rx =
     seqs [Lit ''var expected'', Grp 1 (Star Wd), Lit '' = new '', Grp 2 (Plus Wd)]"

text \<open>
  The pattern
  \<^verbatim>\<open>var jsonResponse = JsonSerializer\.Serialize\((\w+), _jsonOptions\)\<close>.
\<close>

definition serialize_any_rx :: rx where
  "serialize_any_rx =
     seqs [Lit ''var jsonResponse = JsonSerializer.Serialize('', Grp 1 (Plus Wd),
           Lit '', _jsonOptions)'']"

text \<open>
  The callback \<open>fix_test_method\<close>. Its first statement unpacks \<open>match.groups()\<close>,
  the tuple of all groups of the pattern, into four names; Python raises
  \<open>ValueError\<close> when the tuple does not have exactly four values. The callback also
  assigns \<open>modified = True\<close> on its rewriting path; the assignment is made inside the
  nested function without a \<open>nonlocal\<close> declaration, so it binds a local name of the
  callback and is not part of its result.
\<close>

definition fix_test_method :: "match_obj \<Rightarrow> py_error + string" where
  "fix_test_method match =
     (case match_groups test_pattern match of
        [before_brace, method_name, method_body, after_brace] \<Rightarrow>
          (if py_in ''ApiResponse<'' method_body \<or> py_in ''PagedResponse<'' method_body
           then Inr (group match 0)
           else (case re_search expected_decl_rx method_body of
                   None \<Rightarrow> Inr (group match 0)
                 | Some model_match \<Rightarrow>
                     (let var_suffix = group model_match 1;
                          model_type = group model_match 2;
                          var_name = (if var_suffix = [] then ''expected'' @ model_type
                                      else ''expected'' @ var_suffix);
                          new_body = py_replace method_body
                                       (''var expected'' @ var_suffix @ '' = new '' @ model_type)
                                       (''var '' @ var_name @ '' = new '' @ model_type);
                          new_body' = re_sub serialize_any_rx
                                       (\<lambda>m. ''var apiResponse = new ApiResponse<'' @ model_type
                                              @ ''> { Data = '' @ var_name @ '' };'' @ nl
                                              @ ''            var jsonResponse = JsonSerializer.Serialize(apiResponse, _jsonOptions)'')
                                       new_body
                      in Inr (before_brace @ new_body' @ after_brace))))
      | _ \<Rightarrow> Inl ValueError)"

text \<open>
  \<open>apply_api_response_wrapper\<close> on the text of a file: the error that the substitution
  raises, or the text that is written (if any) and the value returned. The \<open>modified\<close>
  of the outer function keeps its initial value \<open>False\<close>.
\<close>

definition apply_api_response_wrapper_text :: "string \<Rightarrow> py_error + string option \<times> bool" where
  "apply_api_response_wrapper_text content =
     (let modified = False in
      case re_sub_raising test_pattern fix_test_method content of
        Inl e \<Rightarrow> Inl e
      | Inr new_content \<Rightarrow>
          Inr (if modified \<and> new_content \<noteq> content then Some new_content else None,
               modified))"

definition apply_api_response_wrapper :: "fs \<Rightarrow> string \<Rightarrow> py_error + fs \<times> bool" where
  "apply_api_response_wrapper files file_path =
     (case read_file files file_path of
        Inl e \<Rightarrow> Inl e
      | Inr content \<Rightarrow>
          (case apply_api_response_wrapper_text content of
             Inl e \<Rightarrow> Inl e
           | Inr (Some written, modified) \<Rightarrow>
               (case write_file files file_path written of
                  Inl e \<Rightarrow> Inl e
                | Inr files' \<Rightarrow> Inr (files', modified))
           | Inr (None, modified) \<Rightarrow> Inr (files, modified)))"

section \<open>The response pattern fixer (fix_response_patterns.py)\<close>

text \<open>
  The pattern
  \<^verbatim>\<open>(\[Fact\]\s+public async Task \w+Async_WithValidId_Returns\w+\(\)\s*{\s*// Arrange[^}]*?var expectedResponse = new \w+\{[^}]*?\};\s*var jsonResponse = JsonSerializer\.Serialize\(expectedResponse, _jsonOptions\);)\<close>.
\<close>

definition single_object_pattern :: rx where
  "single_object_pattern =
     Grp 1 (seqs [Lit ''[Fact]'', Plus Sp, Lit ''public async Task '', Plus Wd,
                  Lit ''Async_WithValidId_Returns'', Plus Wd, Lit ''()'', Star Sp, Lit ''{'',
                  Star Sp, Lit ''// Arrange'', StarLazy (NotIn ''}''),
                  Lit ''var expectedResponse = new '', Plus Wd, Lit ''{'',
                  StarLazy (NotIn ''}''), Lit ''};'', Star Sp, Lit SERIALIZE_STMT])"

text \<open>The pattern \<^verbatim>\<open>var expectedResponse = new (\w+)\s*\{\<close>.\<close>

definition model_brace_rx :: rx where
  "model_brace_rx =
     seqs [Lit ''var expectedResponse = new '', Grp 1 (Plus Wd), Star Sp, Lit ''{'']"

text \<open>
  The loop over the matches, which were found in the text as it was read; each step
  replaces the matched test in the current text.
\<close>

fun fix_single_object_matches :: "match_obj list \<Rightarrow> string \<Rightarrow> bool \<Rightarrow> string \<times> bool" where
  "fix_single_object_matches [] content modified = (content, modified)"
| "fix_single_object_matches (match # rest) content modified =
     (let test_code = group match 1 in
      if \<not> py_in ''ApiResponse<'' test_code \<and> \<not> py_in ''new PagedResponse<'' test_code then
        (case re_search model_brace_rx test_code of
           None \<Rightarrow> fix_single_object_matches rest content modified
         | Some model_match \<Rightarrow>
             (let model_type = group model_match 1;
                  old_code = test_code;
                  new_code = wrap_single_object test_code model_type
              in fix_single_object_matches rest (py_replace content old_code new_code) True))
      else fix_single_object_matches rest content modified)"

definition fix_single_object_tests :: "fs \<Rightarrow> string \<Rightarrow> py_error + fs \<times> bool" where
  "fix_single_object_tests files file_path =
     (case read_file files file_path of
        Inl e \<Rightarrow> Inl e
      | Inr content \<Rightarrow>
          (case fix_single_object_matches (re_finditer single_object_pattern content) content False of
             (content', modified) \<Rightarrow>
               if modified then
                 (case write_file files file_path content' of
                    Inl e \<Rightarrow> Inl e
                  | Inr files' \<Rightarrow> Inr (files', True))
               else Inr (files, False)))"

text \<open>The pattern \<^verbatim>\<open>new PaginationInfo\s*\{([^}]+)\}\<close> and its callback.\<close>

definition paged_pattern :: rx where
  "paged_pattern =
     seqs [Lit ''new PaginationInfo'', Star Sp, Lit ''{'', Grp 1 (Plus (NotIn ''}'')), Lit ''}'']"

definition replace_pagination :: "match_obj \<Rightarrow> string" where
  "replace_pagination match =
     (let pagination_content = group match 1 in
      if \<not> py_in ''TotalPages'' pagination_content \<or> \<not> py_in ''HasNext'' pagination_content then
        (let pagination_content =
               (if endswith (strip pagination_content) '',''
                then rstrip_chars pagination_content '','' else pagination_content);
             missing_props =
               (if \<not> py_in ''TotalPages'' pagination_content then [''TotalPages = 1''] else [])
               @ (if \<not> py_in ''HasNext'' pagination_content then [''HasNext = false''] else [])
         in if missing_props \<noteq> [] then
              (let new_pagination =
                     pagination_content @ '','' @ nl @ ''                        ''
                       @ join ('','' @ nl @ ''                        '') missing_props
               in ''new PaginationInfo'' @ cr @ nl @ ''{ '' @ new_pagination @ cr @ nl
                    @ ''                        }'')
            else group match 0)
      else group match 0)"

definition fix_paged_response_tests :: "fs \<Rightarrow> string \<Rightarrow> py_error + fs \<times> bool" where
  "fix_paged_response_tests files file_path =
     (case read_file files file_path of
        Inl e \<Rightarrow> Inl e
      | Inr content0 \<Rightarrow>
          (let content = re_sub paged_pattern replace_pagination content0 in
           case read_file files file_path of
             Inl e \<Rightarrow> Inl e
           | Inr on_disk \<Rightarrow>
               if content \<noteq> on_disk then
                 (case write_file files file_path content of
                    Inl e \<Rightarrow> Inl e
                  | Inr files' \<Rightarrow> Inr (files', True))
               else Inr (files, False)))"

text \<open>The loop at the end of the script (lines 99 to 109) and the count it prints.\<close>

fun response_patterns_main :: "fs \<Rightarrow> string list \<Rightarrow> nat \<Rightarrow> py_error + fs \<times> nat" where
  "response_patterns_main files [] total_fixes = Inr (files, total_fixes)"
| "response_patterns_main files (test_file # rest) total_fixes =
     (case fix_single_object_tests files test_file of
        Inl e \<Rightarrow> Inl e
      | Inr (files1, modified1) \<Rightarrow>
          (let total1 = (if modified1 then total_fixes + 1 else total_fixes) in
           case fix_paged_response_tests files1 test_file of
             Inl e \<Rightarrow> Inl e
           | Inr (files2, modified2) \<Rightarrow>
               response_patterns_main files2 rest
                 (if modified2 then total1 + 1 else total1)))"

text \<open>The files of a list whose state differs between two file systems, each counted once.\<close>

definition files_modified :: "fs \<Rightarrow> fs \<Rightarrow> string list \<Rightarrow> nat" where
  "files_modified files files' paths =
     length (filter (\<lambda>p. files' p \<noteq> files p) (remdups paths))"

section \<open>The JSON options fixer (fix_tests.py)\<close>

definition JSON_OPTIONS :: string where
  "JSON_OPTIONS = ''_jsonOptions''"

definition json_options_field :: string where
  "json_options_field = ''        private readonly JsonSerializerOptions _jsonOptions;'' @ nl"

definition json_options_init :: string where
  "json_options_init =
     ''            '' @ nl
     @ ''            // Initialize JSON options to match BaseClient'' @ nl
     @ ''            _jsonOptions = new JsonSerializerOptions'' @ nl
     @ ''            {'' @ nl
     @ ''                PropertyNamingPolicy = JsonNamingPolicy.SnakeCaseLower,'' @ nl
     @ ''                DefaultIgnoreCondition = System.Text.Json.Serialization.JsonIgnoreCondition.WhenWritingNull,'' @ nl
     @ ''                Converters = { new System.Text.Json.Serialization.JsonStringEnumConverter() }'' @ nl
     @ ''            };''"

text \<open>The pattern \<^verbatim>\<open>(\s+private readonly HttpClient _httpClient;)\<close>.\<close>

definition http_client_pattern :: rx where
  "http_client_pattern = Grp 1 (seqs [Plus Sp, Lit ''private readonly HttpClient _httpClient;''])"

text \<open>The pattern \<^verbatim>\<open>(\s+BaseAddress = new Uri\(_options\.BaseUrl\)\s*\}\s*;)\<close>.\<close>

definition constructor_pattern :: rx where
  "constructor_pattern =
     Grp 1 (seqs [Plus Sp, Lit ''BaseAddress = new Uri(_options.BaseUrl)'', Star Sp, Lit ''}'',
                  Star Sp, Lit '';''])"

text \<open>The pattern \<^verbatim>\<open>JsonSerializer\.Serialize\(([^,)]+)\)\<close>.\<close>

definition serialize_one_arg_rx :: rx where
  "serialize_one_arg_rx =
     seqs [Lit ''JsonSerializer.Serialize('', Grp 1 (Plus (NotIn '',)'')), Lit '')'']"

text \<open>
  The body of the loop for a file that exists, on its text: the text that is written, or
  \<open>None\<close> when the file is skipped or a pattern is not found. The replacement templates
  \<^verbatim>\<open>\1\n...\<close>, \<^verbatim>\<open>\1...\<close> and \<^verbatim>\<open>JsonSerializer.Serialize(\1, _jsonOptions)\<close>
  are written as functions of the match.
\<close>

definition fix_tests_text :: "string \<Rightarrow> string option" where
  "fix_tests_text content =
     (if py_in JSON_OPTIONS content then None
      else (case re_search http_client_pattern content of
              None \<Rightarrow> None
            | Some match \<Rightarrow>
                (let content1 = re_sub http_client_pattern
                                  (\<lambda>m. group m 1 @ nl @ json_options_field) content
                 in case re_search constructor_pattern content1 of
                      None \<Rightarrow> None
                    | Some match' \<Rightarrow>
                        (let content2 = re_sub constructor_pattern
                                          (\<lambda>m. group m 1 @ json_options_init) content1;
                             content3 = re_sub serialize_one_arg_rx
                                          (\<lambda>m. ''JsonSerializer.Serialize('' @ group m 1
                                                 @ '', _jsonOptions)'') content2
                         in Some content3))))"

text \<open>The loop over the file names; nothing catches an error of \<open>open\<close>.\<close>

fun fix_tests :: "fs \<Rightarrow> string list \<Rightarrow> py_error + fs" where
  "fix_tests files [] = Inr files"
| "fix_tests files (test_file # rest) =
     (let file_path = ''/workspace/LawMatics.SDK.Tests'' @ ''/'' @ test_file in
      if \<not> path_exists files file_path then fix_tests files rest
      else (case read_file files file_path of
              Inl e \<Rightarrow> Inl e
            | Inr content \<Rightarrow>
                (case fix_tests_text content of
                   None \<Rightarrow> fix_tests files rest
                 | Some new_content \<Rightarrow>
                     (case write_file files file_path new_content of
                        Inl e \<Rightarrow> Inl e
                      | Inr files' \<Rightarrow> fix_tests files' rest))))"

section \<open>The quick fixer (quick_fix_remaining.py)\<close>

text \<open>
  For a serialization line found at line \<open>line_num\<close> the script reads the first
  \<open>line_num\<close> lines of the file (the output of \<^verbatim>\<open>sed -n '1,Np'\<close>) and decides from
  that text which substitution to ask for.
\<close>

definition first_lines :: "nat \<Rightarrow> string \<Rightarrow> string" where
  "first_lines line_num file_text =
     concat (map (\<lambda>l. l @ nl) (take line_num (split_on CHR 0x0A file_text)))"

text \<open>
  Lines 46 to 64: the wrapper type that the substitution for this line uses, or \<open>None\<close>
  when no substitution is made.
\<close>

definition quick_wrapper_type :: "string \<Rightarrow> string option" where
  "quick_wrapper_type content =
     (if py_in ''new PagedResponse<'' content then Some ''ApiResponse<PagedResponse<>>''
      else if py_in ''var expectedResponse = new '' content then
        (case re_search model_rx content of
           Some match \<Rightarrow> Some (''ApiResponse<'' @ group match 1 @ ''>'')
         | None \<Rightarrow> None)
      else None)"

section \<open>Predicates for the properties\<close>

text \<open>The positions at which a text occurs in another.\<close>

definition occurrences :: "string \<Rightarrow> string \<Rightarrow> nat list" where
  "occurrences sub s = filter (\<lambda>p. prefix sub (drop p s)) [0..<Suc (length s)]"

text \<open>The text before and the text behind the span of a match are the same in both texts.\<close>

definition outside_span_unchanged :: "string \<Rightarrow> match_obj \<Rightarrow> string \<Rightarrow> bool" where
  "outside_span_unchanged F M F' =
     (prefix (take (m_start M) F) F' \<and> suffix (drop (m_end M) F) (drop (m_start M) F'))"

section \<open>Properties of the line-based fixer\<close>

lemma fix_loop_step:
  "i < length lines \<Longrightarrow>
   fix_loop lines i ml n =
     (case wrapper_at lines i of
        Some w \<Rightarrow> fix_loop lines (Suc i) (ml @ [w, lines ! i]) (Suc n)
      | None \<Rightarrow> fix_loop lines (Suc i) (ml @ [lines ! i]) n)"
  by (subst fix_loop.simps) simp

lemma fix_loop_done: "\<not> i < length lines \<Longrightarrow> fix_loop lines i ml n = (ml, n)"
  by (subst fix_loop.simps) simp

text \<open>The accumulators only collect: the loop from \<open>i\<close> on does not read them.\<close>

lemma fix_loop_acc:
  "fix_loop lines i ml n = (ml @ fst (fix_loop lines i [] 0), n + snd (fix_loop lines i [] 0))"
proof (induction k \<equiv> "length lines - i" arbitrary: i ml n)
  case 0
  then show ?case by (simp add: fix_loop_done)
next
  case (Suc k)
  then have lt: "i < length lines" and k: "k = length lines - Suc i" by auto
  note IH = Suc.hyps(1)[OF k]
  show ?case
  proof (cases "wrapper_at lines i")
    case None
    show ?thesis
      using IH[of "ml @ [lines ! i]" n] IH[of "[lines ! i]" 0]
      by (simp add: fix_loop_step[OF lt] None)
  next
    case (Some w)
    show ?thesis
      using IH[of "ml @ [w, lines ! i]" "Suc n"] IH[of "[w, lines ! i]" "Suc 0"]
      by (simp add: fix_loop_step[OF lt] Some)
  qed
qed

text \<open>What is decided for a line depends on that line and the lines above it only.\<close>

lemma scan_back_take: "j \<le> i \<Longrightarrow> scan_back (take i lines) j = scan_back lines j"
  by (induction j) (auto simp: Let_def)

lemma wrapper_at_take: "j < i \<Longrightarrow> wrapper_at (take i lines) j = wrapper_at lines j"
  by (simp add: wrapper_at_def Let_def scan_back_take)

lemma fix_loop_take:
  "i \<le> length lines \<Longrightarrow> j \<le> i \<Longrightarrow>
   fix_loop lines j ml n =
     (let (a, x) = fix_loop (take i lines) j ml n in fix_loop lines i a x)"
proof (induction k \<equiv> "i - j" arbitrary: j ml n)
  case 0
  then show ?case by (simp add: fix_loop_done)
next
  case (Suc k)
  then have lt: "j < i" and k: "k = i - Suc j" by auto
  have lt1: "j < length lines" and lt2: "j < length (take i lines)" using lt Suc.prems by auto
  note IH = Suc.hyps(1)[OF k Suc.prems(1)]
  show ?case
    using lt IH
    by (simp add: fix_loop_step[OF lt1] fix_loop_step[OF lt2] wrapper_at_take
             split: option.split)
qed

text \<open>
  The backward scan answers from the nearest line above \<open>i\<close> that holds the declaration
  mark, and gives \<open>None\<close> when no line above \<open>i\<close> holds it.
\<close>

lemma scan_back_nearest:
  assumes "j < i"
      and "py_in DECL_MARK (strip (lines ! j))"
      and "\<And>k. j < k \<Longrightarrow> k < i \<Longrightarrow> \<not> py_in DECL_MARK (strip (lines ! k))"
  shows "scan_back lines i =
           map_option (\<lambda>m. group m 1) (re_search decl_type_rx (strip (lines ! j)))"
  using assms
proof (induction i)
  case 0
  then show ?case by simp
next
  case (Suc i)
  show ?case
  proof (cases "j = i")
    case True
    then show ?thesis using Suc.prems(2) by (simp add: Let_def split: option.split)
  next
    case False
    then have ji: "j < i" using Suc.prems(1) by simp
    have no: "\<not> py_in DECL_MARK (strip (lines ! i))" using Suc.prems(3)[of i] ji by simp
    have "scan_back lines i =
            map_option (\<lambda>m. group m 1) (re_search decl_type_rx (strip (lines ! j)))"
      using Suc.IH[OF ji Suc.prems(2)] Suc.prems(3) by simp
    then show ?thesis using no by (simp add: Let_def)
  qed
qed

lemma scan_back_no_declaration:
  "(\<And>k. k < i \<Longrightarrow> \<not> py_in DECL_MARK (strip (lines ! k))) \<Longrightarrow> scan_back lines i = None"
  by (induction i) (simp_all add: Let_def)

text \<open>
  C1 (code defect). The claim: a second run of the pipeline changes nothing. The file
  below holds \<open>PagedResponse<\<close> and has a name ending in \<open>Tests.cs\<close>, so
  \<open>fix_all_paged_response_tests\<close> processes it: the first run inserts a wrapper line in
  front of the serialization line, and the second run, on the files that the first run
  left, inserts one more, since the serialization line is left as it is and triggers
  again. On a declaration of a \<open>PagedResponse\<close>, the guarded pipeline of
  \<open>fix_pagedresponse_tests.py\<close> rewrites the copy of the declaration that its first run
  made. In both scripts the second run differs from the first.
\<close>

theorem second_run_changes_the_file:
  "(case fix_all_paged_response_tests
           [''T/WTests.cs'' \<mapsto>
              \<lparr>f_text = ''    var expectedResponse = new PagedResponse<Widget> { };'' @ nl @
                 ''    var jsonResponse = JsonSerializer.Serialize(expectedResponse, _jsonOptions);'',
               f_readable = True, f_writable = True\<rparr>]
           [(''T'', ''WTests.cs'')] of
      (files1, total1) \<Rightarrow>
        (case fix_all_paged_response_tests files1 [(''T'', ''WTests.cs'')] of
           (files2, total2) \<Rightarrow>
             total1 = 1 \<and> total2 = 1
             \<and> map_option f_text (files2 ''T/WTests.cs'') \<noteq> map_option f_text (files1 ''T/WTests.cs'')))
   \<and> paged_pipeline (paged_pipeline (nl @ '' var r = new PagedResponse<W> { };'' @ nl @
       '' var jsonResponse = JsonSerializer.Serialize(r, _jsonOptions);''))
     \<noteq> paged_pipeline (nl @ '' var r = new PagedResponse<W> { };'' @ nl @
       '' var jsonResponse = JsonSerializer.Serialize(r, _jsonOptions);'')"
  by code_simp

text \<open>
  C7 (code defect). The claim: after the rewrite the serialization call passes the
  wrapper variable. On a file that it processes, \<open>fix_all_paged_response_tests\<close>
  inserts the declaration of \<open>apiResponse\<close> and writes the serialization line back
  unchanged: the call still passes \<open>expectedResponse\<close>.
\<close>

theorem serialization_call_keeps_original_variable:
  "(case fix_all_paged_response_tests
           [''T/WTests.cs'' \<mapsto>
              \<lparr>f_text = ''    var expectedResponse = new PagedResponse<Widget> { };'' @ nl @
                 ''    var jsonResponse = JsonSerializer.Serialize(expectedResponse, _jsonOptions);'',
               f_readable = True, f_writable = True\<rparr>]
           [(''T'', ''WTests.cs'')] of
      (files', total_fixes) \<Rightarrow>
        total_fixes = 1
        \<and> map_option f_text (files' ''T/WTests.cs'')
            = Some (''    var expectedResponse = new PagedResponse<Widget> { };'' @ nl @
                    ''    var apiResponse = new ApiResponse<PagedResponse<Widget>> { Data = expectedResponse };'' @ nl @
                    ''    var jsonResponse = JsonSerializer.Serialize(expectedResponse, _jsonOptions);''))"
  by code_simp

text \<open>
  C5 (counterexample). The claim: a match whose type name cannot be cleanly extracted
  (for instance with unmatched generic brackets) is left untouched. Both files below hold
  \<open>PagedResponse<\<close>, so the script processes them. The declaration
  \<open>new PagedResponse<List<Foo> {\<close> has an unmatched bracket; the type pattern accepts
  \<open>PagedResponse<List<Foo>\<close> as the type and the wrapper line is inserted. Likewise, when
  the inner type of a \<open>PagedResponse\<close> cannot be extracted, the script's own fallback
  branch synthesizes \<open>ApiResponse<PagedResponse<>>\<close> instead of giving up.
\<close>

theorem unextractable_type_still_rewritten:
  "fix_text (''var expectedResponse = new PagedResponse<List<Foo> {'' @ nl @
             ''var jsonResponse = JsonSerializer.Serialize(expectedResponse, _jsonOptions);'')
     = (Some (''var expectedResponse = new PagedResponse<List<Foo> {'' @ nl @
              ''var apiResponse = new ApiResponse<PagedResponse<List<Foo>> { Data = expectedResponse };'' @ nl @
              ''var jsonResponse = JsonSerializer.Serialize(expectedResponse, _jsonOptions);''), 1)
   \<and> py_in ''PagedResponse<''
        (''var expectedResponse = new PagedResponse<List<Foo> {'' @ nl @
         ''var jsonResponse = JsonSerializer.Serialize(expectedResponse, _jsonOptions);'')
   \<and> re_search paged_inner_rx ''PagedResponse'' = None
   \<and> fix_text (''var page = new PagedResponse<Foo>();'' @ nl @
             ''var expectedResponse = new PagedResponse {'' @ nl @
             ''var jsonResponse = JsonSerializer.Serialize(expectedResponse, _jsonOptions);'')
     = (Some (''var page = new PagedResponse<Foo>();'' @ nl @
              ''var expectedResponse = new PagedResponse {'' @ nl @
              ''var apiResponse = new ApiResponse<PagedResponse<>> { Data = expectedResponse };'' @ nl @
              ''var jsonResponse = JsonSerializer.Serialize(expectedResponse, _jsonOptions);''), 1)
   \<and> py_in ''PagedResponse<''
        (''var page = new PagedResponse<Foo>();'' @ nl @
         ''var expectedResponse = new PagedResponse {'' @ nl @
         ''var jsonResponse = JsonSerializer.Serialize(expectedResponse, _jsonOptions);'')"
  by code_simp

text \<open>The body of the \<open>try\<close> block fails only where \<open>open\<close> fails.\<close>

lemma fix_all_try_error:
  assumes "fix_all_try files p = Inl e"
  shows "read_file files p = Inl e \<or> (\<exists>c. write_file files p c = Inl e)"
proof (cases "read_file files p")
  case (Inl e')
  then show ?thesis using assms by (simp add: fix_all_try_def)
next
  case (Inr content)
  obtain w k where ft: "fix_text content = (w, k)" by (cases "fix_text content")
  show ?thesis
  proof (cases w)
    case None
    then show ?thesis using assms Inr ft by (simp add: fix_all_try_def)
  next
    case (Some c)
    then have "write_file files p c = Inl e"
      using assms Inr ft by (simp add: fix_all_try_def split: sum.splits)
    then show ?thesis by blast
  qed
qed

text \<open>
  C5 (amended). For a serialization line \<open>i\<close> whose type is not resolved (no declaration
  above it, or the type pattern does not match the nearest declaration line, as for the
  nested \<open>new PagedResponse<List<Foo>> {\<close>), nothing is synthesized: the output of the
  loop is the output for the lines above \<open>i\<close>, then line \<open>i\<close> itself unchanged, then
  the output for the lines below \<open>i\<close>, and the line counts no fix. Nothing in this is
  raised: processing a file fails only where opening it for reading or writing fails,
  and then the loop over the files goes on with the next file.
\<close>

theorem unresolved_match_left_untouched:
  assumes "i < length lines" and "scan_back lines i = None"
  shows "fix_loop lines 0 [] 0 =
           (fst (fix_loop (take i lines) 0 [] 0) @ [lines ! i] @ fst (fix_loop lines (Suc i) [] 0),
            snd (fix_loop (take i lines) 0 [] 0) + snd (fix_loop lines (Suc i) [] 0))
         \<and> (\<forall>files p e rest n.
               fix_all_try files p = Inl e \<longrightarrow>
                 (read_file files p = Inl e \<or> (\<exists>c. write_file files p c = Inl e))
                 \<and> fix_all_files files (p # rest) n = fix_all_files files rest n)"
proof -
  obtain a x where ax: "fix_loop (take i lines) 0 [] 0 = (a, x)"
    by (cases "fix_loop (take i lines) 0 [] 0")
  have w: "wrapper_at lines i = None" using assms(2) by (simp add: wrapper_at_def Let_def)
  have "fix_loop lines 0 [] 0 = fix_loop lines i a x"
    using fix_loop_take[of i lines 0 "[]" 0] assms(1) ax by simp
  also have "\<dots> = fix_loop lines (Suc i) (a @ [lines ! i]) x"
    using assms(1) w by (simp add: fix_loop_step)
  also have "\<dots> = ((a @ [lines ! i]) @ fst (fix_loop lines (Suc i) [] 0),
                     x + snd (fix_loop lines (Suc i) [] 0))"
    by (rule fix_loop_acc)
  finally have loop: "fix_loop lines 0 [] 0 =
           (fst (fix_loop (take i lines) 0 [] 0) @ [lines ! i] @ fst (fix_loop lines (Suc i) [] 0),
            snd (fix_loop (take i lines) 0 [] 0) + snd (fix_loop lines (Suc i) [] 0))"
    using ax by simp
  have errors: "\<forall>files p e rest n.
               fix_all_try files p = Inl e \<longrightarrow>
                 (read_file files p = Inl e \<or> (\<exists>c. write_file files p c = Inl e))
                 \<and> fix_all_files files (p # rest) n = fix_all_files files rest n"
    using fix_all_try_error by simp
  show ?thesis using loop errors by (rule conjI)
qed

theorem unresolved_match_left_untouched_witness:
  "1 < length [''var expectedResponse = new PagedResponse<List<Foo>> {'',
               ''var jsonResponse = JsonSerializer.Serialize(expectedResponse, _jsonOptions);'']
   \<and> scan_back [''var expectedResponse = new PagedResponse<List<Foo>> {'',
               ''var jsonResponse = JsonSerializer.Serialize(expectedResponse, _jsonOptions);''] 1 = None
   \<and> fix_loop [''var expectedResponse = new PagedResponse<List<Foo>> {'',
               ''var jsonResponse = JsonSerializer.Serialize(expectedResponse, _jsonOptions);''] 0 [] 0
       = ([''var expectedResponse = new PagedResponse<List<Foo>> {'',
           ''var jsonResponse = JsonSerializer.Serialize(expectedResponse, _jsonOptions);''], 0)
   \<and> fix_all_try [''T/ATests.cs'' \<mapsto> \<lparr>f_text = ''x'', f_readable = False, f_writable = True\<rparr>]
         ''T/ATests.cs'' = Inl PermissionError
   \<and> read_file [''T/ATests.cs'' \<mapsto> \<lparr>f_text = ''x'', f_readable = False, f_writable = True\<rparr>]
         ''T/ATests.cs'' = Inl PermissionError
   \<and> fix_all_files [''T/ATests.cs'' \<mapsto> \<lparr>f_text = ''x'', f_readable = False, f_writable = True\<rparr>]
         [''T/ATests.cs'', ''T/BTests.cs''] 0
       = fix_all_files [''T/ATests.cs'' \<mapsto> \<lparr>f_text = ''x'', f_readable = False, f_writable = True\<rparr>]
         [''T/BTests.cs''] 0"
proof -
  let ?L = "[''var expectedResponse = new PagedResponse<List<Foo>> {'',
             ''var jsonResponse = JsonSerializer.Serialize(expectedResponse, _jsonOptions);'']"
  let ?F = "[''T/ATests.cs'' \<mapsto> \<lparr>f_text = ''x'', f_readable = False, f_writable = True\<rparr>]"
  have h1: "1 < length ?L" by simp
  have h2: "scan_back ?L 1 = None" by code_simp
  have pre: "fix_loop (take 1 ?L) 0 [] 0 = ([''var expectedResponse = new PagedResponse<List<Foo>> {''], 0)"
    by code_simp
  have post: "fix_loop ?L (Suc 1) [] 0 = ([], 0)" by (simp add: fix_loop_done)
  have rd: "read_file ?F ''T/ATests.cs'' = Inl PermissionError" by (simp add: read_file_def)
  have h3: "fix_all_try ?F ''T/ATests.cs'' = Inl PermissionError"
    by (simp add: fix_all_try_def rd)
  note inst = unresolved_match_left_untouched[OF h1 h2]
  have loop: "fix_loop ?L 0 [] 0 = (?L, 0)" using inst pre post by simp
  have cont: "fix_all_files ?F [''T/ATests.cs'', ''T/BTests.cs''] 0 = fix_all_files ?F [''T/BTests.cs''] 0"
    using inst h3 by blast
  show ?thesis using h1 h2 loop h3 rd cont by (intro conjI)
qed

section \<open>Properties of the other fixers\<close>

text \<open>
  C2 (code defect). The claim: for a variable of type \<open>PagedResponse<Inner>\<close> the wrapper
  is \<open>ApiResponse<PagedResponse<Inner>>\<close>, never one with an empty type argument.
  \<open>replace_paged_response\<close> in \<open>fix_pagedresponse_tests.py\<close> writes the constant
  \<open>ApiResponse<PagedResponse<>>\<close> for every declaration it rewrites; here the declared
  type is \<open>PagedResponse<W>\<close>.
\<close>

theorem paged_wrapper_has_empty_type_argument:
  "fix_paged_text (nl @ '' var r = new PagedResponse<W> { };'' @ nl @
       '' var jsonResponse = JsonSerializer.Serialize(r, _jsonOptions);'')
   = Some (nl @ '' var r = new PagedResponse<W> { };''
       @ ''var apiResponse = new ApiResponse<PagedResponse<>> { Data = r };'' @ nl
       @ nl @ '' var r = new PagedResponse<W> { };''
       @ ''var jsonResponse = JsonSerializer.Serialize(apiResponse, _jsonOptions);'')"
  by code_simp

text \<open>
  C4 (code defect). The claim: the type is resolved from the nearest declaration above
  the serialization line. \<open>quick_fix_remaining.py\<close> searches the text of the lines up to
  the serialization line from its start, so with two declarations above line 3 it takes
  the type of the first one, \<open>Alpha\<close>; the backward scan of
  \<open>fix_all_pagedresponse.py\<close> resolves the same line to the nearest one, \<open>Beta\<close>.
\<close>

theorem quick_fix_resolves_from_first_declaration:
  "quick_wrapper_type (first_lines 3
       (''var expectedResponse = new Alpha { };'' @ nl @
        ''var expectedResponse = new Beta { };'' @ nl @
        ''var jsonResponse = JsonSerializer.Serialize(expectedResponse, _jsonOptions);''))
     = Some ''ApiResponse<Alpha>''
   \<and> scan_back [''var expectedResponse = new Alpha { };'',
                ''var expectedResponse = new Beta { };'',
                ''var jsonResponse = JsonSerializer.Serialize(expectedResponse, _jsonOptions);''] 2
     = Some ''Beta''"
  by code_simp

text \<open>The number of fixes is the number of lines in front of which a wrapper is put.\<close>

lemma fix_loop_count:
  "snd (fix_loop lines i [] 0)
     = length (filter (\<lambda>j. wrapper_at lines j \<noteq> None) [i..<length lines])"
proof (induction k \<equiv> "length lines - i" arbitrary: i)
  case 0
  then show ?case by (simp add: fix_loop_done)
next
  case (Suc k)
  then have lt: "i < length lines" and k: "k = length lines - Suc i" by auto
  note IH = Suc.hyps(1)[OF k]
  have upt: "[i..<length lines] = i # [Suc i..<length lines]" using lt by (rule upt_conv_Cons)
  show ?case
  proof (cases "wrapper_at lines i")
    case None
    have "snd (fix_loop lines i [] 0) = snd (fix_loop lines (Suc i) [lines ! i] 0)"
      by (simp add: fix_loop_step[OF lt] None)
    also have "\<dots> = snd (fix_loop lines (Suc i) [] 0)"
      by (subst fix_loop_acc) simp
    finally show ?thesis using IH None by (simp add: upt)
  next
    case (Some w)
    have "snd (fix_loop lines i [] 0) = snd (fix_loop lines (Suc i) [w, lines ! i] (Suc 0))"
      by (simp add: fix_loop_step[OF lt] Some)
    also have "\<dots> = Suc (snd (fix_loop lines (Suc i) [] 0))"
      by (subst fix_loop_acc) simp
    finally show ?thesis using IH Some by (simp add: upt)
  qed
qed

lemma fixes_positive_iff:
  "0 < snd (fix_loop lines 0 [] 0) \<longleftrightarrow> (\<exists>i<length lines. wrapper_at lines i \<noteq> None)"
proof -
  have "0 < snd (fix_loop lines 0 [] 0)
          \<longleftrightarrow> filter (\<lambda>j. wrapper_at lines j \<noteq> None) [0..<length lines] \<noteq> []"
    by (simp add: fix_loop_count)
  also have "\<dots> \<longleftrightarrow> (\<exists>i<length lines. wrapper_at lines i \<noteq> None)"
    by (auto simp: filter_empty_conv)
  finally show ?thesis .
qed

text \<open>
  The callback of \<open>final_fix_script.py\<close> raises on every match, since its pattern has
  five groups; so the substitution returns only for a text without a match, and returns
  that text.
\<close>

lemma fix_test_method_raises: "fix_test_method m = Inl ValueError"
proof -
  have "[1..<Suc (num_groups test_pattern)] = [1, 2, 3, 4, 5]" by code_simp
  then show ?thesis by (simp add: fix_test_method_def match_groups_def)
qed

lemma re_sub_raising_returns:
  assumes "\<And>m. repl m = Inl e"
  shows "re_sub_from_raising r repl 0 s pos = Inr c \<Longrightarrow> search_from r s pos = None \<and> c = s"
proof (induction s arbitrary: pos c)
  case Nil
  then show ?case using assms by (auto split: option.splits)
next
  case (Cons x t)
  show ?case
  proof (cases "match_here r (x # t) pos")
    case (Some m)
    then show ?thesis using Cons.prems assms by simp
  next
    case None
    then obtain rest where rest: "re_sub_from_raising r repl 0 t (Suc pos) = Inr rest"
      and c: "c = x # rest"
      using Cons.prems by (auto split: sum.splits)
    from Cons.IH[OF rest] show ?thesis using None c by simp
  qed
qed

text \<open>
  C6. In \<open>fix_all_pagedresponse.py\<close>, for a file that can be read and written, the file
  is written if and only if a wrapper line was put in front of at least one of its
  lines: then the file holds the new text (the modified lines joined), otherwise the
  files are left as they are. \<open>apply_api_response_wrapper\<close> of \<open>final_fix_script.py\<close>
  returns only for a text in which its pattern finds no test, so no rewrite was applied,
  and then it leaves the files as they are.
\<close>

theorem file_is_written_iff_a_rewrite_was_applied:
  assumes "files p = Some f" and "f_readable f" and "f_writable f"
      and "lines = split_on CHR 0x0A (universal_newlines (f_text f))"
  shows "((\<exists>i<length lines. wrapper_at lines i \<noteq> None) \<longrightarrow>
            (\<exists>k>0. fix_all_try files p =
                     Inr (files(p \<mapsto> f\<lparr>f_text := join nl (fst (fix_loop lines 0 [] 0))\<rparr>), k)))
         \<and> ((\<forall>i<length lines. wrapper_at lines i = None) \<longrightarrow>
              fix_all_try files p = Inr (files, 0))
         \<and> (\<forall>r. apply_api_response_wrapper files p = Inr r \<longrightarrow>
              r = (files, False)
              \<and> re_search test_pattern (universal_newlines (f_text f)) = None)"
proof -
  let ?content = "universal_newlines (f_text f)"
  have rd: "read_file files p = Inr ?content" using assms(1,2) by (simp add: read_file_def)
  obtain ml k where loop: "fix_loop lines 0 [] 0 = (ml, k)" by (cases "fix_loop lines 0 [] 0")
  have ft: "fix_text ?content = (if 0 < k then Some (join nl ml) else None, k)"
    using loop assms(4) by (simp add: fix_text_def)
  have pos: "0 < k \<longleftrightarrow> (\<exists>i<length lines. wrapper_at lines i \<noteq> None)"
    using fixes_positive_iff[of lines] loop by simp
  have wr: "\<And>c. write_file files p c = Inr (files(p \<mapsto> f\<lparr>f_text := c\<rparr>))"
    using assms(1,3) by (simp add: write_file_def)
  have part1: "(\<exists>i<length lines. wrapper_at lines i \<noteq> None) \<longrightarrow>
            (\<exists>k>0. fix_all_try files p =
                     Inr (files(p \<mapsto> f\<lparr>f_text := join nl (fst (fix_loop lines 0 [] 0))\<rparr>), k))"
  proof
    assume "\<exists>i<length lines. wrapper_at lines i \<noteq> None"
    then have k: "0 < k" using pos by simp
    have "fix_all_try files p = Inr (files(p \<mapsto> f\<lparr>f_text := join nl ml\<rparr>), k)"
      using k by (simp add: fix_all_try_def rd ft wr)
    then show "\<exists>k>0. fix_all_try files p =
                     Inr (files(p \<mapsto> f\<lparr>f_text := join nl (fst (fix_loop lines 0 [] 0))\<rparr>), k)"
      using k loop by auto
  qed
  have part2: "(\<forall>i<length lines. wrapper_at lines i = None) \<longrightarrow>
              fix_all_try files p = Inr (files, 0)"
  proof
    assume "\<forall>i<length lines. wrapper_at lines i = None"
    then have "\<not> 0 < k" using pos by simp
    then show "fix_all_try files p = Inr (files, 0)"
      by (simp add: fix_all_try_def rd ft)
  qed
  have part3: "\<forall>r. apply_api_response_wrapper files p = Inr r \<longrightarrow>
              r = (files, False)
              \<and> re_search test_pattern ?content = None"
  proof (intro allI impI)
    fix r assume r: "apply_api_response_wrapper files p = Inr r"
    then obtain new_content where
      sub: "re_sub_raising test_pattern fix_test_method ?content = Inr new_content"
      by (auto simp: apply_api_response_wrapper_def apply_api_response_wrapper_text_def rd
               split: sum.splits)
    have none: "re_search test_pattern ?content = None"
      using re_sub_raising_returns[of fix_test_method ValueError test_pattern ?content 0 new_content]
            fix_test_method_raises sub
      by (simp add: re_sub_raising_def re_search_def)
    have "r = (files, False)"
      using r sub by (simp add: apply_api_response_wrapper_def apply_api_response_wrapper_text_def rd)
    then show "r = (files, False) \<and> re_search test_pattern ?content = None"
      using none by simp
  qed
  show ?thesis using part1 part2 part3 by (intro conjI)
qed

theorem file_is_written_iff_a_rewrite_was_applied_witness:
  "wrapper_at [''    var expectedResponse = new PagedResponse<Widget> { };'',
               ''    var jsonResponse = JsonSerializer.Serialize(expectedResponse, _jsonOptions);''] 1
     \<noteq> None
   \<and> (\<exists>k>0. fix_all_try
               [''T/WTests.cs'' \<mapsto>
                  \<lparr>f_text = ''    var expectedResponse = new PagedResponse<Widget> { };'' @ nl @
                     ''    var jsonResponse = JsonSerializer.Serialize(expectedResponse, _jsonOptions);'',
                   f_readable = True, f_writable = True\<rparr>]
               ''T/WTests.cs''
             = Inr ([''T/WTests.cs'' \<mapsto>
                      \<lparr>f_text = ''    var expectedResponse = new PagedResponse<Widget> { };'' @ nl @
                         ''    var jsonResponse = JsonSerializer.Serialize(expectedResponse, _jsonOptions);'',
                       f_readable = True, f_writable = True\<rparr>]
                    (''T/WTests.cs'' \<mapsto>
                       \<lparr>f_text = ''    var expectedResponse = new PagedResponse<Widget> { };'' @ nl @
                          ''    var jsonResponse = JsonSerializer.Serialize(expectedResponse, _jsonOptions);'',
                        f_readable = True, f_writable = True\<rparr>
                       \<lparr>f_text := join nl (fst (fix_loop
                          [''    var expectedResponse = new PagedResponse<Widget> { };'',
                           ''    var jsonResponse = JsonSerializer.Serialize(expectedResponse, _jsonOptions);'']
                          0 [] 0))\<rparr>), k))
   \<and> join nl (fst (fix_loop
         [''    var expectedResponse = new PagedResponse<Widget> { };'',
          ''    var jsonResponse = JsonSerializer.Serialize(expectedResponse, _jsonOptions);''] 0 [] 0))
       = ''    var expectedResponse = new PagedResponse<Widget> { };'' @ nl @
         ''    var apiResponse = new ApiResponse<PagedResponse<Widget>> { Data = expectedResponse };'' @ nl @
         ''    var jsonResponse = JsonSerializer.Serialize(expectedResponse, _jsonOptions);''
   \<and> length [''var page = new PagedResponse<Foo>();''] = 1
   \<and> wrapper_at [''var page = new PagedResponse<Foo>();''] 0 = None
   \<and> fix_all_try
         [''T/VTests.cs'' \<mapsto>
            \<lparr>f_text = ''var page = new PagedResponse<Foo>();'', f_readable = True, f_writable = True\<rparr>]
         ''T/VTests.cs''
       = Inr ([''T/VTests.cs'' \<mapsto>
            \<lparr>f_text = ''var page = new PagedResponse<Foo>();'', f_readable = True, f_writable = True\<rparr>], 0)
   \<and> apply_api_response_wrapper
         [''T/VTests.cs'' \<mapsto>
            \<lparr>f_text = ''var page = new PagedResponse<Foo>();'', f_readable = True, f_writable = True\<rparr>]
         ''T/VTests.cs''
       = Inr ([''T/VTests.cs'' \<mapsto>
            \<lparr>f_text = ''var page = new PagedResponse<Foo>();'', f_readable = True, f_writable = True\<rparr>],
              False)"
proof -
  let ?LA = "[''    var expectedResponse = new PagedResponse<Widget> { };'',
              ''    var jsonResponse = JsonSerializer.Serialize(expectedResponse, _jsonOptions);'']"
  let ?fA = "\<lparr>f_text = ''    var expectedResponse = new PagedResponse<Widget> { };'' @ nl @
                ''    var jsonResponse = JsonSerializer.Serialize(expectedResponse, _jsonOptions);'',
              f_readable = True, f_writable = True\<rparr>"
  let ?FA = "[''T/WTests.cs'' \<mapsto> ?fA]"
  let ?V = "''var page = new PagedResponse<Foo>();''"
  let ?fV = "\<lparr>f_text = ?V, f_readable = True, f_writable = True\<rparr>"
  let ?FV = "[''T/VTests.cs'' \<mapsto> ?fV]"
  have a1: "?FA ''T/WTests.cs'' = Some ?fA" by simp
  have a2: "f_readable ?fA" by simp
  have a3: "f_writable ?fA" by simp
  have a4: "?LA = split_on CHR 0x0A (universal_newlines (f_text ?fA))" by code_simp
  have planA: "wrapper_at ?LA 1 \<noteq> None" by code_simp
  have exA: "\<exists>i<length ?LA. wrapper_at ?LA i \<noteq> None"
  proof (intro exI conjI)
    show "1 < length ?LA" by simp
    show "wrapper_at ?LA 1 \<noteq> None" by (rule planA)
  qed
  have newA: "join nl (fst (fix_loop ?LA 0 [] 0))
                = ''    var expectedResponse = new PagedResponse<Widget> { };'' @ nl @
                  ''    var apiResponse = new ApiResponse<PagedResponse<Widget>> { Data = expectedResponse };'' @ nl @
                  ''    var jsonResponse = JsonSerializer.Serialize(expectedResponse, _jsonOptions);''"
    by code_simp
  note instA = file_is_written_iff_a_rewrite_was_applied[of ?FA "''T/WTests.cs''" ?fA ?LA, OF a1 a2 a3 a4]
  have writtenA: "\<exists>k>0. fix_all_try ?FA ''T/WTests.cs'' =
                Inr (?FA(''T/WTests.cs'' \<mapsto> ?fA\<lparr>f_text := join nl (fst (fix_loop ?LA 0 [] 0))\<rparr>), k)"
    using instA exA by blast
  have v1: "?FV ''T/VTests.cs'' = Some ?fV" by simp
  have v2: "f_readable ?fV" by simp
  have v3: "f_writable ?fV" by simp
  have v4: "[?V] = split_on CHR 0x0A (universal_newlines (f_text ?fV))" by code_simp
  have noV0: "wrapper_at [?V] 0 = None" by code_simp
  have noV: "\<forall>i<length [?V]. wrapper_at [?V] i = None"
  proof (intro allI impI)
    fix i assume "i < length [?V]"
    then have "i = 0" by simp
    then show "wrapper_at [?V] i = None" using noV0 by (simp only:)
  qed
  note instV = file_is_written_iff_a_rewrite_was_applied[of ?FV "''T/VTests.cs''" ?fV "[?V]", OF v1 v2 v3 v4]
  have keptV: "fix_all_try ?FV ''T/VTests.cs'' = Inr (?FV, 0)"
    using instV noV by blast
  have "case apply_api_response_wrapper ?FV ''T/VTests.cs'' of Inl e \<Rightarrow> False | Inr r \<Rightarrow> True"
    by code_simp
  then obtain r where r: "apply_api_response_wrapper ?FV ''T/VTests.cs'' = Inr r"
    by (cases "apply_api_response_wrapper ?FV ''T/VTests.cs''") auto
  have "r = (?FV, False)" using instV r by blast
  then have finalV: "apply_api_response_wrapper ?FV ''T/VTests.cs'' = Inr (?FV, False)"
    using r by (simp only:)
  have lenV: "length [?V] = 1" by simp
  show ?thesis using planA writtenA newA lenV noV0 keptV finalV by (intro conjI)
qed

text \<open>
  In \<open>fix_all_pagedresponse.py\<close> a file whose processing fails is passed over and the
  loop goes on with the next file.
\<close>

lemma fix_all_files_skips_failing_file:
  "fix_all_try files p = Inl e \<Longrightarrow> fix_all_files files (p # rest) n = fix_all_files files rest n"
  by simp

text \<open>
  C8 (code defect). The claim: an unreadable file is skipped and the batch goes on with
  the next file. The loop of \<open>fix_single_object_tests.py\<close> calls
  \<open>fix_single_object_get_tests\<close> without any handler: with an unreadable \<open>a.cs\<close> in
  front, the script ends with the error, and \<open>b.cs\<close>, which the fixer would rewrite, is
  never processed.
\<close>

theorem unreadable_file_ends_the_script:
  "(case single_object_main
     [''a.cs'' \<mapsto> \<lparr>f_text = ''x'', f_readable = False, f_writable = True\<rparr>,
      ''b.cs'' \<mapsto> \<lparr>f_text = ''[Fact] public async Task GetAsync_WithValidId_ReturnsW() { var expectedResponse = new W(); var jsonResponse = JsonSerializer.Serialize(expectedResponse, _jsonOptions); } ]'',
                   f_readable = True, f_writable = True\<rparr>]
     [''a.cs'', ''b.cs''] 0 of
      Inl e \<Rightarrow> e = PermissionError
    | Inr (files', total_fixes) \<Rightarrow> False)
   \<and> (case fix_single_object_get_tests
             [''a.cs'' \<mapsto> \<lparr>f_text = ''x'', f_readable = False, f_writable = True\<rparr>,
              ''b.cs'' \<mapsto> \<lparr>f_text = ''[Fact] public async Task GetAsync_WithValidId_ReturnsW() { var expectedResponse = new W(); var jsonResponse = JsonSerializer.Serialize(expectedResponse, _jsonOptions); } ]'',
                   f_readable = True, f_writable = True\<rparr>]
             ''b.cs'' of
         Inl e \<Rightarrow> False
       | Inr (files', modified) \<Rightarrow> modified)"
  by code_simp

text \<open>
  C9 (code defect). The claim: the count printed at the end is the number of distinct
  files modified. The loop of \<open>fix_response_patterns.py\<close> adds one for each of its two
  fixers that changed the file: a single file that both fixers change makes the printed
  \<open>Total files fixed\<close> two.
\<close>

theorem one_file_counted_twice:
  "(case response_patterns_main
           [''a.cs'' \<mapsto> \<lparr>f_text = ''[Fact] public async Task GetAsync_WithValidId_ReturnsW() { // Arrange var expectedResponse = new W{ Id = 1 }; var jsonResponse = JsonSerializer.Serialize(expectedResponse, _jsonOptions); } var p = new PaginationInfo { Page = 1 };'',
                         f_readable = True, f_writable = True\<rparr>]
           [''a.cs''] 0 of
      Inl e \<Rightarrow> False
    | Inr (files', total_fixes) \<Rightarrow>
        total_fixes = 2
        \<and> files_modified
              [''a.cs'' \<mapsto> \<lparr>f_text = ''[Fact] public async Task GetAsync_WithValidId_ReturnsW() { // Arrange var expectedResponse = new W{ Id = 1 }; var jsonResponse = JsonSerializer.Serialize(expectedResponse, _jsonOptions); } var p = new PaginationInfo { Page = 1 };'',
                         f_readable = True, f_writable = True\<rparr>]
              files' [''a.cs''] = 1)"
  by code_simp

section \<open>Replacing a match by its text\<close>

lemma replace_nonempty_skip:
  "replace_nonempty old new (length xs) (xs @ s) = replace_nonempty old new 0 s"
  by (induction xs) simp_all

lemma replace_nonempty_no_occurrence_before:
  "(\<And>p. p < length pre \<Longrightarrow> \<not> prefix old (drop p (pre @ rest))) \<Longrightarrow>
   replace_nonempty old new 0 (pre @ rest) = pre @ replace_nonempty old new 0 rest"
proof (induction pre)
  case Nil
  then show ?case by simp
next
  case (Cons c pre)
  have here: "\<not> prefix old ((c # pre) @ rest)" using Cons.prems[of 0] by simp
  have later: "\<And>p. p < length pre \<Longrightarrow> \<not> prefix old (drop p (pre @ rest))"
    using Cons.prems[of "Suc p" for p] by simp
  show ?case using here Cons.IH[OF later] by simp
qed

lemma replace_nonempty_no_occurrence:
  "old \<noteq> [] \<Longrightarrow> (\<And>p. p \<le> length post \<Longrightarrow> \<not> prefix old (drop p post)) \<Longrightarrow>
   replace_nonempty old new 0 post = post"
proof (induction post)
  case Nil
  then show ?case by simp
next
  case (Cons c post)
  have here: "\<not> prefix old (c # post)" using Cons.prems(2)[of 0] by simp
  have later: "\<And>p. p \<le> length post \<Longrightarrow> \<not> prefix old (drop p post)"
    using Cons.prems(2)[of "Suc p" for p] by simp
  show ?case using here Cons.IH[OF Cons.prems(1) later] by simp
qed

lemma replace_nonempty_at_occurrence:
  assumes "old \<noteq> []"
  shows "replace_nonempty old new 0 (old @ post) = new @ replace_nonempty old new 0 post"
proof -
  obtain c t where old: "old = c # t" using assms by (cases old) auto
  have "replace_nonempty old new 0 (old @ post)
          = new @ replace_nonempty old new (length t) (t @ post)"
    by (simp add: old)
  then show ?thesis by (simp add: replace_nonempty_skip)
qed

lemma occurrences_single:
  assumes "occurrences g s = [st]" and "p \<le> length s"
  shows "prefix g (drop p s) \<longleftrightarrow> p = st"
proof -
  have "p \<in> set (occurrences g s) \<longleftrightarrow> p = st" by (simp only: assms(1)) simp
  moreover have "p \<in> set (occurrences g s) \<longleftrightarrow> prefix g (drop p s)"
    unfolding occurrences_def using assms(2) by (simp del: upt_Suc)
  ultimately show ?thesis by simp
qed

lemma py_replace_unique_occurrence:
  assumes occ: "occurrences g content = [length pre]"
      and content: "content = pre @ g @ post"
  shows "py_replace content g new = pre @ new @ post"
proof (cases "g = []")
  case True
  have "[0..<Suc (length content)] = occurrences g content"
    by (simp add: occurrences_def True)
  also have "\<dots> = [length pre]" by (rule occ)
  finally have "length [0..<Suc (length content)] = length [length pre]" by (rule arg_cong)
  then have "content = []" by simp
  then have "pre @ g @ post = []" by (simp only: content[symmetric])
  then have "pre = []" and "post = []" by simp_all
  then show ?thesis using True by (simp add: py_replace_def content)
next
  case False
  have before: "\<not> prefix g (drop p (pre @ g @ post))" if "p < length pre" for p
  proof -
    have "p \<le> length content" using that by (simp add: content)
    then have "prefix g (drop p content) \<longleftrightarrow> p = length pre"
      by (rule occurrences_single[OF occ])
    then show ?thesis using that by (simp add: content)
  qed
  have behind: "\<And>p. p \<le> length post \<Longrightarrow> \<not> prefix g (drop p post)"
  proof
    fix p assume p: "p \<le> length post" and pre: "prefix g (drop p post)"
    have "drop (length pre + length g + p) content = drop p post" by (simp add: content)
    moreover have "length pre + length g + p \<le> length content" using p by (simp add: content)
    ultimately have "length pre + length g + p = length pre"
      using occurrences_single[OF occ, of "length pre + length g + p"] pre by simp
    then show False using False by simp
  qed
  have "py_replace content g new = replace_nonempty g new 0 (pre @ g @ post)"
    using False by (simp add: py_replace_def content)
  also have "\<dots> = pre @ replace_nonempty g new 0 (g @ post)"
    by (rule replace_nonempty_no_occurrence_before) (rule before)
  also have "\<dots> = pre @ new @ replace_nonempty g new 0 post"
    by (simp add: replace_nonempty_at_occurrence[OF False])
  also have "\<dots> = pre @ new @ post"
    using replace_nonempty_no_occurrence[OF False behind] by simp
  finally show ?thesis .
qed

lemma match_here_span:
  assumes "match_here r s pos = Some m"
  shows "m_start m = pos \<and> (\<exists>n \<le> length s. m_end m = pos + n \<and> group m 0 = take n s)"
proof (cases "run [R r] s []")
  case None
  then show ?thesis using assms by (simp add: match_here_def)
next
  case (Some res)
  obtain rest g where res: "res = (rest, g)" by (cases res)
  have m: "m = \<lparr>m_start = pos, m_end = pos + (length s - length rest),
                m_groups = (0, take (length s - length rest) s) # g\<rparr>"
    using assms Some res by (simp add: match_here_def)
  have "m_end m = pos + (length s - length rest) \<and> group m 0 = take (length s - length rest) s"
    by (simp add: m group_def)
  moreover have "length s - length rest \<le> length s" by simp
  ultimately show ?thesis using m by auto
qed

lemma search_from_span:
  "search_from r s pos = Some m \<Longrightarrow>
   \<exists>k n. k \<le> length s \<and> n \<le> length s - k \<and> m_start m = pos + k \<and> m_end m = pos + k + n
         \<and> group m 0 = take n (drop k s)"
proof (induction s arbitrary: pos)
  case Nil
  then have "match_here r [] pos = Some m" by simp
  from match_here_span[OF this] show ?case by auto
next
  case (Cons c t)
  show ?case
  proof (cases "match_here r (c # t) pos")
    case (Some m0)
    then have "match_here r (c # t) pos = Some m" using Cons.prems by simp
    from match_here_span[OF this] obtain n where
      "n \<le> length (c # t)" "m_start m = pos" "m_end m = pos + n" "group m 0 = take n (c # t)"
      by auto
    then show ?thesis by (intro exI[of _ 0] exI[of _ n]) simp
  next
    case None
    then have "search_from r t (Suc pos) = Some m" using Cons.prems by simp
    from Cons.IH[OF this] obtain k n where
      "k \<le> length t" "n \<le> length t - k" "m_start m = Suc pos + k" "m_end m = Suc pos + k + n"
      "group m 0 = take n (drop k t)"
      by auto
    then show ?thesis by (intro exI[of _ "Suc k"] exI[of _ n]) simp
  qed
qed

lemma re_search_span:
  assumes "re_search r s = Some m"
  shows "s = take (m_start m) s @ group m 0 @ drop (m_end m) s \<and> m_start m \<le> length s"
proof -
  from search_from_span[OF assms[unfolded re_search_def]] obtain k n where
    kn: "k \<le> length s" "n \<le> length s - k" "m_start m = k" "m_end m = k + n"
        "group m 0 = take n (drop k s)"
    by auto
  have "take n (drop k s) @ drop n (drop k s) = drop k s" by (rule append_take_drop_id)
  then have "take n (drop k s) @ drop (k + n) s = drop k s" by (simp add: add.commute)
  then have "take k s @ take n (drop k s) @ drop (k + n) s = s" by simp
  then show ?thesis using kn by simp
qed

text \<open>
  C3 (amended). When the text of the match found for the method occurs in the file at
  the span of the match only, \<open>content.replace(method_match.group(0), new_method)\<close>
  replaces exactly that span: the text before and the text behind the span are the same
  before and after the rewrite.
\<close>

theorem rewrite_is_local_when_match_text_is_unique:
  assumes "re_search (method_pattern method_name) content = Some mm"
      and "fix_method content method_name = Some content'"
      and "occurrences (group mm 0) content = [m_start mm]"
  shows "(\<exists>new_method. content' = take (m_start mm) content @ new_method @ drop (m_end mm) content)
         \<and> outside_span_unchanged content mm content'"
proof -
  from re_search_span[OF assms(1)] have
    split: "content = take (m_start mm) content @ group mm 0 @ drop (m_end mm) content"
    and le: "m_start mm \<le> length content" by auto
  from assms(2) assms(1) obtain new_method where
    c': "content' = py_replace content (group mm 0) new_method"
    by (auto simp: fix_method_def Let_def split: if_splits option.splits)
  have len: "length (take (m_start mm) content) = m_start mm" using le by simp
  have "py_replace content (group mm 0) new_method
          = take (m_start mm) content @ new_method @ drop (m_end mm) content"
    by (rule py_replace_unique_occurrence[where pre = "take (m_start mm) content"])
       (simp_all only: len assms(3) split[symmetric])
  then have eq: "content' = take (m_start mm) content @ new_method @ drop (m_end mm) content"
    using c' by simp
  have pre: "prefix (take (m_start mm) content) content'"
    by (subst eq) simp
  have g: "\<And>xs ys :: string. drop (length xs) (xs @ ys) = ys" by simp
  have d: "drop (m_start mm) (take (m_start mm) content @ new_method @ drop (m_end mm) content)
             = new_method @ drop (m_end mm) content"
    using g[of "take (m_start mm) content" "new_method @ drop (m_end mm) content"]
    by (simp only: len)
  have "drop (m_start mm) content' = new_method @ drop (m_end mm) content"
    by (subst eq) (rule d)
  then have suf: "suffix (drop (m_end mm) content) (drop (m_start mm) content')"
    by (simp add: suffix_def)
  have "\<exists>new_method. content' = take (m_start mm) content @ new_method @ drop (m_end mm) content"
    using eq by (rule exI)
  then show ?thesis unfolding outside_span_unchanged_def using pre suf by (intro conjI)
qed

text \<open>
  C3 (counterexample). The claim: rewriting a match changes no text outside its span.
  In \<open>fix_single_object_tests.py\<close> the match is put back with \<open>str.replace\<close>, which
  replaces every occurrence of the matched text. The file below holds the same test
  twice; the match is the first test, at positions 0 to 92, and rewriting it rewrites the
  second test, which lies behind the span, as well.
\<close>

theorem replace_rewrites_text_outside_the_match:
  "(let F = ''[Fact] public async Task GAsync_WithValidId_ReturnsW() { var expectedResponse = new W(); } ]''
          @ ''[Fact] public async Task GAsync_WithValidId_ReturnsW() { var expectedResponse = new W(); } ]''
    in case re_search (method_pattern ''GAsync_WithValidId_ReturnsW'') F of
         None \<Rightarrow> False
       | Some mm \<Rightarrow>
           m_start mm = 0 \<and> m_end mm = 92
           \<and> fix_method F ''GAsync_WithValidId_ReturnsW''
               = Some (''[Fact] public async Task GAsync_WithValidId_ReturnsW() { var expectedW = new W(); } ]''
                       @ ''[Fact] public async Task GAsync_WithValidId_ReturnsW() { var expectedW = new W(); } ]'')
           \<and> \<not> outside_span_unchanged F mm
                 (''[Fact] public async Task GAsync_WithValidId_ReturnsW() { var expectedW = new W(); } ]''
                  @ ''[Fact] public async Task GAsync_WithValidId_ReturnsW() { var expectedW = new W(); } ]''))"
  by code_simp

theorem rewrite_is_local_when_match_text_is_unique_witness:
  "\<exists>mm. re_search (method_pattern ''GAsync_WithValidId_ReturnsW'')
            ''// head [Fact] public async Task GAsync_WithValidId_ReturnsW() { var expectedResponse = new W(); } ] // tail''
          = Some mm
     \<and> m_start mm = 8 \<and> m_end mm = 100
     \<and> length ''// head [Fact] public async Task GAsync_WithValidId_ReturnsW() { var expectedResponse = new W(); } ] // tail'' = 108
     \<and> fix_method ''// head [Fact] public async Task GAsync_WithValidId_ReturnsW() { var expectedResponse = new W(); } ] // tail''
            ''GAsync_WithValidId_ReturnsW''
          = Some ''// head [Fact] public async Task GAsync_WithValidId_ReturnsW() { var expectedW = new W(); } ] // tail''
     \<and> occurrences (group mm 0)
            ''// head [Fact] public async Task GAsync_WithValidId_ReturnsW() { var expectedResponse = new W(); } ] // tail''
          = [m_start mm]
     \<and> outside_span_unchanged
            ''// head [Fact] public async Task GAsync_WithValidId_ReturnsW() { var expectedResponse = new W(); } ] // tail''
            mm
            ''// head [Fact] public async Task GAsync_WithValidId_ReturnsW() { var expectedW = new W(); } ] // tail''"
proof -
  let ?F = "''// head [Fact] public async Task GAsync_WithValidId_ReturnsW() { var expectedResponse = new W(); } ] // tail''"
  let ?mm = "\<lparr>m_start = 8, m_end = 100,
               m_groups = [(0, ''[Fact] public async Task GAsync_WithValidId_ReturnsW() { var expectedResponse = new W(); } ]''),
                           (3, ''} ]''), (2, '' var expectedResponse = new W(); ''),
                           (1, ''[Fact] public async Task GAsync_WithValidId_ReturnsW() {'')]\<rparr>"
  have h1: "re_search (method_pattern ''GAsync_WithValidId_ReturnsW'') ?F = Some ?mm"
    by code_simp
  have h2: "fix_method ?F ''GAsync_WithValidId_ReturnsW''
              = Some ''// head [Fact] public async Task GAsync_WithValidId_ReturnsW() { var expectedW = new W(); } ] // tail''"
    by code_simp
  have h3: "occurrences (group ?mm 0) ?F = [m_start ?mm]" by code_simp
  have len: "length ?F = 108" by simp
  have span: "m_start ?mm = 8 \<and> m_end ?mm = 100" by simp
  show ?thesis
    using h1 h2 h3 len span rewrite_is_local_when_match_text_is_unique[OF h1 h2 h3] by blast
qed

section \<open>Properties of the JSON options fixer\<close>

lemma py_in_sublist: "py_in sub s = sublist sub s"
  by (induction s) (auto simp: sublist_Cons_right)

lemma py_in_append: "py_in sub (a @ sub @ b)"
  by (simp add: py_in_sublist)

lemma py_in_mono: "py_in sub t \<Longrightarrow> py_in sub (a @ t @ b)"
  unfolding py_in_sublist by (meson sublist_appendI sublist_order.order_trans)

lemma re_sub_from_no_match:
  "search_from r s pos = None \<Longrightarrow> re_sub_from r f 0 s pos = s"
  by (induction s arbitrary: pos) (auto split: option.splits)

lemma re_sub_from_match:
  "search_from r s pos = Some m \<Longrightarrow> \<exists>m' pre post. re_sub_from r f 0 s pos = pre @ f m' @ post"
proof (induction s arbitrary: pos)
  case Nil
  then have "re_sub_from r f 0 [] pos = [] @ f m @ []" by simp
  then show ?case by blast
next
  case (Cons c t)
  show ?case
  proof (cases "match_here r (c # t) pos")
    case None
    then have "search_from r t (Suc pos) = Some m" using Cons.prems by simp
    then obtain m' pre post where "re_sub_from r f 0 t (Suc pos) = pre @ f m' @ post"
      using Cons.IH by blast
    then have "re_sub_from r f 0 (c # t) pos = (c # pre) @ f m' @ post" using None by simp
    then show ?thesis by blast
  next
    case (Some m0)
    then have "\<exists>post. re_sub_from r f 0 (c # t) pos = [] @ f m0 @ post" by simp
    then show ?thesis by blast
  qed
qed

lemma re_sub_keeps_or_inserts:
  assumes "py_in x s" and "\<And>m. py_in x (f m)"
  shows "py_in x (re_sub r f s)"
proof (cases "search_from r s 0")
  case None
  then show ?thesis using assms(1) by (simp add: re_sub_def re_sub_from_no_match)
next
  case (Some m)
  then obtain m' pre post where "re_sub r f s = pre @ f m' @ post"
    unfolding re_sub_def using re_sub_from_match by blast
  then show ?thesis using assms(2) py_in_mono by simp
qed

lemma re_sub_inserts:
  assumes "re_search r s = Some m" and "\<And>m. py_in x (f m)"
  shows "py_in x (re_sub r f s)"
proof -
  obtain m' pre post where "re_sub r f s = pre @ f m' @ post"
    using assms(1) unfolding re_sub_def re_search_def using re_sub_from_match by blast
  then show ?thesis using assms(2) py_in_mono by simp
qed

lemma json_options_in_init: "py_in JSON_OPTIONS (g @ json_options_init)"
proof -
  have "py_in JSON_OPTIONS json_options_init" by code_simp
  then show ?thesis using py_in_mono[of JSON_OPTIONS json_options_init g "[]"] by simp
qed

lemma json_options_in_call:
  "py_in JSON_OPTIONS (''JsonSerializer.Serialize('' @ g @ '', _jsonOptions)'')"
proof -
  have "py_in JSON_OPTIONS '', _jsonOptions)''" by code_simp
  then show ?thesis
    using py_in_mono[of JSON_OPTIONS "'', _jsonOptions)''" "''JsonSerializer.Serialize('' @ g" "[]"]
    by simp
qed

lemma fix_tests_text_output:
  assumes "fix_tests_text content = Some c'"
  shows "py_in JSON_OPTIONS c'"
proof -
  from assms obtain m2 where
    m2: "re_search constructor_pattern
           (re_sub http_client_pattern (\<lambda>m. group m 1 @ nl @ json_options_field) content) = Some m2"
    and c': "c' = re_sub serialize_one_arg_rx
                   (\<lambda>m. ''JsonSerializer.Serialize('' @ group m 1 @ '', _jsonOptions)'')
                   (re_sub constructor_pattern (\<lambda>m. group m 1 @ json_options_init)
                      (re_sub http_client_pattern (\<lambda>m. group m 1 @ nl @ json_options_field) content))"
    by (auto simp: fix_tests_text_def Let_def split: if_splits option.splits)
  have "py_in JSON_OPTIONS (re_sub constructor_pattern (\<lambda>m. group m 1 @ json_options_init)
                      (re_sub http_client_pattern (\<lambda>m. group m 1 @ nl @ json_options_field) content))"
    by (rule re_sub_inserts[OF m2]) (rule json_options_in_init)
  then show ?thesis unfolding c'
    by (rule re_sub_keeps_or_inserts) (rule json_options_in_call)
qed

lemma read_file_exists: "read_file files p = Inr c \<Longrightarrow> path_exists files p"
  by (auto simp: path_exists_def read_file_def split: option.splits)

lemma fix_tests_skips_file:
  assumes "read_file files (''/workspace/LawMatics.SDK.Tests'' @ ''/'' @ test_file) = Inr content"
      and "fix_tests_text content = None"
  shows "fix_tests files [test_file] = Inr files"
proof -
  have "path_exists files (''/workspace/LawMatics.SDK.Tests'' @ ''/'' @ test_file)"
    using assms(1) by (rule read_file_exists)
  then show ?thesis using assms by (simp add: Let_def)
qed

text \<open>
  C10. A file whose text holds \<open>_jsonOptions\<close> is skipped: nothing is written for it and
  the files stay as they are. Every text that the fixer writes holds \<open>_jsonOptions\<close>,
  so the fixer skips each of its own outputs.
\<close>

theorem json_options_fixer_is_idempotent:
  "(py_in JSON_OPTIONS content \<longrightarrow>
      fix_tests_text content = None
      \<and> (\<forall>files test_file.
            read_file files (''/workspace/LawMatics.SDK.Tests'' @ ''/'' @ test_file) = Inr content \<longrightarrow>
            fix_tests files [test_file] = Inr files))
   \<and> (\<forall>c'. fix_tests_text content = Some c' \<longrightarrow>
          py_in JSON_OPTIONS c' \<and> fix_tests_text c' = None)"
proof -
  have skip: "\<And>c. py_in JSON_OPTIONS c \<Longrightarrow> fix_tests_text c = None"
    by (simp add: fix_tests_text_def)
  show ?thesis using skip fix_tests_text_output fix_tests_skips_file by blast
qed

theorem json_options_fixer_is_idempotent_witness:
  "py_in JSON_OPTIONS ''var a = _jsonOptions;''
   \<and> fix_tests_text ''var a = _jsonOptions;'' = None
   \<and> read_file [''/workspace/LawMatics.SDK.Tests/A.cs'' \<mapsto>
                   \<lparr>f_text = ''var a = _jsonOptions;'', f_readable = True, f_writable = True\<rparr>]
         (''/workspace/LawMatics.SDK.Tests'' @ ''/'' @ ''A.cs'') = Inr ''var a = _jsonOptions;''
   \<and> fix_tests [''/workspace/LawMatics.SDK.Tests/A.cs'' \<mapsto>
                   \<lparr>f_text = ''var a = _jsonOptions;'', f_readable = True, f_writable = True\<rparr>]
         [''A.cs'']
       = Inr [''/workspace/LawMatics.SDK.Tests/A.cs'' \<mapsto>
                   \<lparr>f_text = ''var a = _jsonOptions;'', f_readable = True, f_writable = True\<rparr>]
   \<and> fix_tests_text '' private readonly HttpClient _httpClient; BaseAddress = new Uri(_options.BaseUrl) }; JsonSerializer.Serialize(x)''
       = Some ('' private readonly HttpClient _httpClient;'' @ nl @ json_options_field
               @ '' BaseAddress = new Uri(_options.BaseUrl) };'' @ json_options_init
               @ '' JsonSerializer.Serialize(x, _jsonOptions)'')
   \<and> py_in JSON_OPTIONS ('' private readonly HttpClient _httpClient;'' @ nl @ json_options_field
               @ '' BaseAddress = new Uri(_options.BaseUrl) };'' @ json_options_init
               @ '' JsonSerializer.Serialize(x, _jsonOptions)'')
   \<and> fix_tests_text ('' private readonly HttpClient _httpClient;'' @ nl @ json_options_field
               @ '' BaseAddress = new Uri(_options.BaseUrl) };'' @ json_options_init
               @ '' JsonSerializer.Serialize(x, _jsonOptions)'') = None"
proof -
  have a: "py_in JSON_OPTIONS ''var a = _jsonOptions;''" by code_simp
  have b: "read_file [''/workspace/LawMatics.SDK.Tests/A.cs'' \<mapsto>
                   \<lparr>f_text = ''var a = _jsonOptions;'', f_readable = True, f_writable = True\<rparr>]
         (''/workspace/LawMatics.SDK.Tests'' @ ''/'' @ ''A.cs'') = Inr ''var a = _jsonOptions;''"
    by code_simp
  have c: "fix_tests_text '' private readonly HttpClient _httpClient; BaseAddress = new Uri(_options.BaseUrl) }; JsonSerializer.Serialize(x)''
       = Some ('' private readonly HttpClient _httpClient;'' @ nl @ json_options_field
               @ '' BaseAddress = new Uri(_options.BaseUrl) };'' @ json_options_init
               @ '' JsonSerializer.Serialize(x, _jsonOptions)'')"
    by code_simp
  show ?thesis
    using a b c
      json_options_fixer_is_idempotent[of "''var a = _jsonOptions;''"]
      json_options_fixer_is_idempotent[of "'' private readonly HttpClient _httpClient; BaseAddress = new Uri(_options.BaseUrl) }; JsonSerializer.Serialize(x)''"]
    by blast
qed

end
